theory Spec2Isabelle
  imports Complex_Main
begin

section \<open>JavaScript strings as sequences of UTF-16 code units\<close>

text \<open>
  A JavaScript string is a sequence of 16-bit code units; \<open>length\<close>, \<open>slice\<close> and the
  regular expressions used by the filters all count and compare code units. A text is
  therefore a list of code units (numbers below 65536), and a source literal made of ASCII
  characters is written through \<open>lit\<close>.
\<close>

type_synonym jstring = "nat list"

definition lit :: "string \<Rightarrow> jstring" where
  "lit s = map of_char s"

text \<open>Decimal rendering of a number inside a template literal.\<close>

fun dec_digits :: "nat \<Rightarrow> jstring" where
  "dec_digits n = (if n < 10 then [48 + n] else dec_digits (n div 10) @ [48 + n mod 10])"

declare dec_digits.simps [simp del]

definition num_str :: "int \<Rightarrow> jstring" where
  "num_str i = (if i < 0 then 45 # dec_digits (nat (- i)) else dec_digits (nat i))"

text \<open>
  White space as \<open>\s\<close> and \<open>String.prototype.trim\<close> see it: the ECMAScript WhiteSpace and
  LineTerminator code points.
\<close>

definition is_space :: "nat \<Rightarrow> bool" where
  "is_space c \<longleftrightarrow>
     c = 9 \<or> c = 10 \<or> c = 11 \<or> c = 12 \<or> c = 13 \<or> c = 32 \<or> c = 160 \<or> c = 5760 \<or>
     (8192 \<le> c \<and> c \<le> 8202) \<or> c = 8232 \<or> c = 8233 \<or> c = 8239 \<or> c = 8287 \<or>
     c = 12288 \<or> c = 65279"

definition trim :: "jstring \<Rightarrow> jstring" where
  "trim s = rev (dropWhile is_space (rev (dropWhile is_space s)))"

text \<open>\<open>s.split(d)\<close> for a one-character separator, and \<open>parts.join(sep)\<close>.\<close>

fun split_on :: "nat \<Rightarrow> jstring \<Rightarrow> jstring list" where
  "split_on d [] = [[]]"
| "split_on d (c # cs) =
     (if c = d then [] # split_on d cs
      else (case split_on d cs of [] \<Rightarrow> [[c]] | l # ls \<Rightarrow> (c # l) # ls))"

fun join :: "jstring \<Rightarrow> jstring list \<Rightarrow> jstring" where
  "join sep [] = []"
| "join sep [x] = x"
| "join sep (x # y # ys) = x @ sep @ join sep (y # ys)"

definition startsWith :: "jstring \<Rightarrow> jstring \<Rightarrow> bool" where
  "startsWith s p \<longleftrightarrow> take (length p) s = p"

fun includes_str :: "jstring \<Rightarrow> jstring \<Rightarrow> bool" where
  "includes_str [] p \<longleftrightarrow> p = []"
| "includes_str (c # cs) p \<longleftrightarrow> startsWith (c # cs) p \<or> includes_str cs p"

section \<open>Rounding (\<open>Math.round\<close>)\<close>

text \<open>
  \<open>Math.round\<close> rounds to the nearest integer, a tie going up. It is used where the hook
  fills in the percentage of a metric record.
\<close>

definition Math_round :: "real \<Rightarrow> real" where
  "Math_round x = of_int \<lfloor>x + 1 / 2\<rfloor>"

section \<open>Configuration (src/config.ts)\<close>

text \<open>
  The file comes in two versions; the one modelled is the one with \<open>showUpdateEvery\<close>,
  which the plugin reads. The other lacks that field and the lines of \<open>mergeConfig\<close> that
  normalise it, and merges everything else in the same way. The character and line
  budgets are integers.
\<close>

datatype FilterLevel = FL_none | FL_minimal | FL_aggressive

record truncation_cfg =
  trunc_enabled :: bool
  trunc_maxChars :: int

record smartTruncation_cfg =
  smart_enabled :: bool
  smart_maxLines :: int

record techniques_cfg =
  ansiStripping :: bool
  truncation :: truncation_cfg
  sourceCodeFiltering :: FilterLevel
  smartTruncation :: smartTruncation_cfg
  testOutputAggregation :: bool
  buildOutputFiltering :: bool
  gitCompaction :: bool
  searchResultGrouping :: bool
  linterAggregation :: bool

record RtkConfig =
  enabled :: bool
  logSavings :: bool
  showUpdateEvery :: real
  techniques :: techniques_cfg

definition DEFAULT_CONFIG :: RtkConfig where
  "DEFAULT_CONFIG =
     \<lparr> enabled = True, logSavings = True, showUpdateEvery = 10,
       techniques =
         \<lparr> ansiStripping = True,
           truncation = \<lparr> trunc_enabled = True, trunc_maxChars = 10000 \<rparr>,
           sourceCodeFiltering = FL_minimal,
           smartTruncation = \<lparr> smart_enabled = True, smart_maxLines = 200 \<rparr>,
           testOutputAggregation = True, buildOutputFiltering = True, gitCompaction = True,
           searchResultGrouping = True, linterAggregation = True \<rparr> \<rparr>"
















section \<open>Git status compaction (\<open>compactStatus\<close> of the git technique)\<close>

record StatusStats =
  staged :: nat
  modified :: nat
  untracked :: nat
  conflicts :: nat
  stagedFiles :: "jstring list"
  modifiedFiles :: "jstring list"
  untrackedFiles :: "jstring list"

text \<open>
  The part of the loop body that parses one porcelain line \<open>XY filename\<close>; the loop only
  reaches it for lines of at least three characters.
\<close>

definition status_entry :: "jstring \<Rightarrow> StatusStats \<Rightarrow> StatusStats" where
  "status_entry line stats =
     (let status = take 2 line; filename = drop 3 line
      in if status = lit ''??''
         then stats \<lparr> untracked := untracked stats + 1,
                      untrackedFiles := untrackedFiles stats @ [filename] \<rparr>
         else
           (let indexStatus = status ! 0; worktreeStatus = status ! 1;
                s1 = (if indexStatus \<in> set (lit ''MADRC'')
                      then stats \<lparr> staged := staged stats + 1,
                                   stagedFiles := stagedFiles stats @ [filename] \<rparr>
                      else stats);
                s2 = (if indexStatus = of_char CHR ''U''
                      then s1 \<lparr> conflicts := conflicts s1 + 1 \<rparr> else s1)
            in if worktreeStatus \<in> set (lit ''MD'')
               then s2 \<lparr> modified := modified s2 + 1,
                         modifiedFiles := modifiedFiles s2 @ [filename] \<rparr>
               else s2))"

fun status_loop :: "nat \<Rightarrow> jstring list \<Rightarrow> jstring \<times> StatusStats \<Rightarrow> jstring \<times> StatusStats" where
  "status_loop i [] acc = acc"
| "status_loop i (line # rest) (branchName, stats) =
     (if i = 0 \<and> startsWith line (lit ''On branch '')
      then status_loop (Suc i) rest (drop 10 line, stats)
      else if line = [] \<or> length line < 3
      then status_loop (Suc i) rest (branchName, stats)
      else status_loop (Suc i) rest (branchName, status_entry line stats))"

definition empty_stats :: StatusStats where
  "empty_stats =
     \<lparr> staged = 0, modified = 0, untracked = 0, conflicts = 0,
       stagedFiles = [], modifiedFiles = [], untrackedFiles = [] \<rparr>"

text \<open>
  The summary lines. The markers are the code units of U+1F4CC, U+2705, U+1F4DD, U+2753
  and U+26A0 U+FE0F.
\<close>

definition status_summary :: "jstring \<Rightarrow> StatusStats \<Rightarrow> jstring list" where
  "status_summary branchName stats =
     (if branchName \<noteq> [] then [[55357, 56524] @ lit '' '' @ branchName] else [])
     @ (if staged stats > 0
        then [[9989] @ lit '' Staged: '' @ num_str (int (staged stats)) @ lit '' files'']
             @ map (\<lambda>file. lit ''  '' @ file) (take 5 (stagedFiles stats))
             @ (if length (stagedFiles stats) > 5
                then [lit ''  ... +'' @ num_str (int (length (stagedFiles stats)) - 5)
                        @ lit '' more'']
                else [])
        else [])
     @ (if modified stats > 0
        then [[55357, 56541] @ lit '' Modified: '' @ num_str (int (modified stats))
                @ lit '' files'']
             @ map (\<lambda>file. lit ''  '' @ file) (take 5 (modifiedFiles stats))
             @ (if length (modifiedFiles stats) > 5
                then [lit ''  ... +'' @ num_str (int (length (modifiedFiles stats)) - 5)
                        @ lit '' more'']
                else [])
        else [])
     @ (if untracked stats > 0
        then [[10067] @ lit '' Untracked: '' @ num_str (int (untracked stats)) @ lit '' files'']
             @ map (\<lambda>file. lit ''  '' @ file) (take 3 (untrackedFiles stats))
             @ (if length (untrackedFiles stats) > 3
                then [lit ''  ... +'' @ num_str (int (length (untrackedFiles stats)) - 3)
                        @ lit '' more'']
                else [])
        else [])
     @ (if conflicts stats > 0
        then [[9888, 65039] @ lit ''  Conflicts: '' @ num_str (int (conflicts stats))
                @ lit '' files'']
        else [])"

definition compactStatus :: "jstring \<Rightarrow> jstring" where
  "compactStatus output =
     (let lines = split_on 10 output
      in if length lines = 0 \<or> (length lines = 1 \<and> trim (lines ! 0) = [])
         then lit ''Clean working tree''
         else
           (let (branchName, stats) = status_loop 0 lines ([], empty_stats);
                joined = join [10] (status_summary branchName stats)
            in if joined = [] then lit ''Clean working tree'' else joined))"

section \<open>The plugin's data (src/plugin.ts, src/metrics.ts)\<close>

text \<open>
  A thrown exception is a value: the message that the \<open>catch\<close> block reads from it.
\<close>

datatype fault = Fault jstring

text \<open>
  The filter functions the hook calls. Each one either throws (\<open>Inl\<close>) or returns
  (\<open>Inr\<close>); the command filters return \<open>null\<close> (\<open>None\<close>) when they do not apply. The hook
  is modelled over any such family, so that what it does when a filter throws can be
  stated. A language is the string \<open>detectLanguage\<close> returns.
\<close>

record stages =
  f_stripAnsiFast :: "jstring \<Rightarrow> fault + jstring"
  f_filterBuildOutput :: "jstring \<Rightarrow> jstring \<Rightarrow> fault + jstring option"
  f_aggregateTestOutput :: "jstring \<Rightarrow> jstring \<Rightarrow> fault + jstring option"
  f_aggregateLinterOutput :: "jstring \<Rightarrow> jstring \<Rightarrow> fault + jstring option"
  f_compactGitOutput :: "jstring \<Rightarrow> jstring \<Rightarrow> fault + jstring option"
  f_groupSearchResults :: "jstring \<Rightarrow> fault + jstring option"
  f_detectLanguage :: "jstring \<Rightarrow> fault + jstring"
  f_filterMinimal :: "jstring \<Rightarrow> jstring \<Rightarrow> fault + jstring"
  f_filterAggressive :: "jstring \<Rightarrow> jstring \<Rightarrow> fault + jstring"
  f_smartTruncate :: "jstring \<Rightarrow> int \<Rightarrow> fault + jstring"
  f_truncate :: "jstring \<Rightarrow> int \<Rightarrow> fault + jstring"

text \<open>
  The hook's \<open>input\<close>: the tool name, the two spellings of the session identifier and the
  two arguments the hook reads; an absent argument is \<open>None\<close>.
\<close>

record tool_input =
  tool :: jstring
  sessionID :: "jstring option"
  sessionId :: "jstring option"
  args_command :: "jstring option"
  args_filePath :: "jstring option"

record MetricRecord =
  m_timestamp :: jstring
  m_sessionId :: jstring
  m_tool :: jstring
  m_technique :: jstring
  m_originalChars :: nat
  m_filteredChars :: nat
  m_savingsPercent :: real

text \<open>The \<open>output.output\<close> field: a string, or a value of another type.\<close>

datatype js_output = OutString jstring | OutOther

text \<open>
  What \<open>client.app.log\<close> receives: the savings line of \<open>recordAndLog\<close> (level info; tool,
  technique, percentage and the two character counts) or the filter error of the \<open>catch\<close>
  block (level warn; tool and exception).
\<close>

datatype log_entry =
    LogSavings jstring jstring real nat nat
  | LogFilterError jstring fault

text \<open>
  The state the hook acts on: the mutable \<open>output.output\<close>, the in-memory
  \<open>sessionMetrics\<close>, the log and the metrics file that \<open>appendMetric\<close> appends to. Logging
  and appending are taken to succeed.
\<close>

record plugin_state =
  output_field :: js_output
  sessionMetrics :: "MetricRecord list"
  app_log :: "log_entry list"
  metricsFile :: "MetricRecord list"

section \<open>Truncation filter (src/techniques/truncate.ts)\<close>

text \<open>
  \<open>maxChars\<close> is the configured character budget, an integer; \<open>text.slice(0, k)\<close> with
  \<open>0 \<le> k\<close> is \<open>take k\<close>.
\<close>

definition truncate :: "jstring \<Rightarrow> int \<Rightarrow> jstring" where
  "truncate text maxChars =
     (if int (length text) \<le> maxChars then text
      else if maxChars < 3 then lit ''...''
      else
        (let truncated = take (nat (maxChars - 3)) text;
             omitted = int (length text) - (maxChars - 3)
         in truncated @ [10] @ lit ''... [truncated: '' @ num_str omitted
              @ lit '' chars omitted]''))"

section \<open>ANSI filter (src/techniques/ansi.ts)\<close>

text \<open>
  Each regular expression of \<open>stripAnsi\<close> is modelled by a function that, given the text
  from some position on, returns the length of the match starting exactly there, if there
  is one. In all three expressions the starred character class cannot match the character
  that must follow it, so the greedy run is the only way to match and backtracking never
  finds another one.
\<close>

definition is_param :: "nat \<Rightarrow> bool" where
  "is_param c \<longleftrightarrow> (48 \<le> c \<and> c \<le> 57) \<or> c = 59"

definition is_alpha :: "nat \<Rightarrow> bool" where
  "is_alpha c \<longleftrightarrow> (97 \<le> c \<and> c \<le> 122) \<or> (65 \<le> c \<and> c \<le> 90)"

text \<open>\<^verbatim>\<open>/\x1b\[[0-9;]*[a-zA-Z]/\<close>\<close>

definition csi_match :: "jstring \<Rightarrow> nat option" where
  "csi_match s =
     (if startsWith s [27, 91]
      then
        (let params = takeWhile is_param (drop 2 s)
         in case dropWhile is_param (drop 2 s) of
              [] \<Rightarrow> None
            | c # _ \<Rightarrow> if is_alpha c then Some (2 + length params + 1) else None)
      else None)"

text \<open>The terminator \<^verbatim>\<open>(?:\x07|\x1b\\)\<close>: the length it matches at the start of the text.\<close>

definition osc_end :: "jstring \<Rightarrow> nat option" where
  "osc_end s =
     (if startsWith s [7] then Some 1
      else if startsWith s [27, 92] then Some 2
      else None)"

text \<open>\<^verbatim>\<open>/\x1b\][0-9;]*(?:\x07|\x1b\\)/\<close>\<close>

definition osc_param_match :: "jstring \<Rightarrow> nat option" where
  "osc_param_match s =
     (if startsWith s [27, 93]
      then
        (let params = takeWhile is_param (drop 2 s)
         in case osc_end (dropWhile is_param (drop 2 s)) of
              None \<Rightarrow> None
            | Some e \<Rightarrow> Some (2 + length params + e))
      else None)"

text \<open>\<^verbatim>\<open>/\x1b\][^\x07\x1b]*(?:\x07|\x1b\\)/\<close>\<close>

definition osc_any_match :: "jstring \<Rightarrow> nat option" where
  "osc_any_match s =
     (if startsWith s [27, 93]
      then
        (let body = takeWhile (\<lambda>c. c \<noteq> 7 \<and> c \<noteq> 27) (drop 2 s)
         in case osc_end (dropWhile (\<lambda>c. c \<noteq> 7 \<and> c \<noteq> 27) (drop 2 s)) of
              None \<Rightarrow> None
            | Some e \<Rightarrow> Some (2 + length body + e))
      else None)"

text \<open>
  \<open>text.replace(re, '')\<close> with a global expression: scan from the left, delete each match
  and go on behind it; a character where nothing matches is kept. (After an empty match
  the scan moves one character on, keeping it.)
\<close>

function replace_all :: "(jstring \<Rightarrow> nat option) \<Rightarrow> jstring \<Rightarrow> jstring" where
  "replace_all m [] = []"
| "replace_all m (c # cs) =
     (case m (c # cs) of
        None \<Rightarrow> c # replace_all m cs
      | Some n \<Rightarrow> if n = 0 then c # replace_all m cs else replace_all m (drop (n - 1) cs))"
  by pat_completeness auto
termination
  by (relation "measure (\<lambda>(m, s). length s)") auto

definition stripAnsi :: "jstring \<Rightarrow> jstring" where
  "stripAnsi text =
     replace_all osc_any_match (replace_all osc_param_match (replace_all csi_match text))"

definition stripAnsiFast :: "jstring \<Rightarrow> jstring" where
  "stripAnsiFast text = (if \<not> includes_str text [27] then text else stripAnsi text)"

text \<open>
  A text whose escape characters all belong to complete sequences: read from the left,
  every escape character begins a complete CSI sequence (as the first expression matches
  it) or a complete OSC sequence (as the third expression matches it, ended by BEL or by
  ESC and a backslash), and reading goes on behind that sequence.
\<close>

function sequences_complete :: "jstring \<Rightarrow> bool" where
  "sequences_complete [] = True"
| "sequences_complete (c # cs) =
     (if c \<noteq> 27 then sequences_complete cs
      else
        (case csi_match (c # cs) of
           Some n \<Rightarrow> sequences_complete (drop (n - 1) cs)
         | None \<Rightarrow>
             (case osc_any_match (c # cs) of
                Some n \<Rightarrow> sequences_complete (drop (n - 1) cs)
              | None \<Rightarrow> False)))"
  by pat_completeness auto
termination
  by (relation "measure length") auto

text \<open>
  The same without CSI sequences: what such a text looks like once the first expression
  has been applied.
\<close>

function osc_complete :: "jstring \<Rightarrow> bool" where
  "osc_complete [] = True"
| "osc_complete (c # cs) =
     (if c \<noteq> 27 then osc_complete cs
      else
        (case osc_any_match (c # cs) of
           Some n \<Rightarrow> osc_complete (drop (n - 1) cs)
         | None \<Rightarrow> False))"
  by pat_completeness auto
termination
  by (relation "measure length") auto

declare sequences_complete.simps [simp del] osc_complete.simps [simp del]

text \<open>
  The two parts of an OSC sequence behind \<open>ESC ]\<close>: a body free of BEL and ESC, and a
  terminator, BEL or ESC and a backslash.
\<close>

definition body_ok :: "jstring \<Rightarrow> bool" where
  "body_ok b \<longleftrightarrow> (\<forall>c \<in> set b. c \<noteq> 7 \<and> c \<noteq> 27)"

definition term_ok :: "jstring \<Rightarrow> bool" where
  "term_ok t \<longleftrightarrow> t = [7] \<or> t = [27, 92]"

section \<open>Test output aggregation (src/techniques/test-output.ts)\<close>

text \<open>
  \<open>toLowerCase\<close> is modelled on the ASCII letters; other code units are left alone. The
  commands are only searched for ASCII words, none of which contains a letter that a
  non-ASCII character lowers to, so \<open>isTestCommand\<close> is not affected.
\<close>

definition toLowerCase :: "jstring \<Rightarrow> jstring" where
  "toLowerCase s = map (\<lambda>c. if 65 \<le> c \<and> c \<le> 90 then c + 32 else c) s"

definition TEST_COMMANDS :: "jstring list" where
  "TEST_COMMANDS =
     [lit ''test'', lit ''jest'', lit ''vitest'', lit ''pytest'', lit ''cargo test'',
      lit ''bun test'', lit ''go test'', lit ''mocha'', lit ''ava'', lit ''tap'']"

definition isTestCommand :: "jstring \<Rightarrow> bool" where
  "isTestCommand command =
     (let cmdLower = toLowerCase command
      in list_ex (\<lambda>tc. includes_str cmdLower (toLowerCase tc)) TEST_COMMANDS)"

subsection \<open>The regular expressions\<close>

text \<open>
  The character classes \<open>\d\<close> and \<open>\w\<close>, a literal, and a literal under the \<open>i\<close> flag
  (without the \<open>u\<close> flag an ASCII letter matches exactly its two cases). A matcher gets
  the text from some position on and returns what the expression captures when it matches
  exactly there. As in the ANSI filter, every greedy run is followed by something its
  class cannot match, and an optional group is followed only by another optional group or
  the end of the expression, so the first way to match found by taking runs whole and
  optional groups when they match is the one the backtracking matcher finds.
\<close>

definition is_digit :: "nat \<Rightarrow> bool" where
  "is_digit c \<longleftrightarrow> 48 \<le> c \<and> c \<le> 57"

definition is_word :: "nat \<Rightarrow> bool" where
  "is_word c \<longleftrightarrow> is_digit c \<or> is_alpha c \<or> c = 95"

definition expect :: "jstring \<Rightarrow> jstring \<Rightarrow> jstring option" where
  "expect p s = (if startsWith s p then Some (drop (length p) s) else None)"

definition expect_ci :: "jstring \<Rightarrow> jstring \<Rightarrow> jstring option" where
  "expect_ci p s =
     (if toLowerCase (take (length p) s) = toLowerCase p then Some (drop (length p) s)
      else None)"

text \<open>\<open>text.match(re)\<close> without the \<open>g\<close> flag: the leftmost position where \<open>re\<close> matches.\<close>

fun regex_search :: "(jstring \<Rightarrow> 'a option) \<Rightarrow> jstring \<Rightarrow> 'a option" where
  "regex_search m [] = m []"
| "regex_search m (c # cs) =
     (case m (c # cs) of Some r \<Rightarrow> Some r | None \<Rightarrow> regex_search m cs)"

text \<open>The groups 1 to 3 of a match; a group that took no part is \<open>undefined\<close> (\<open>None\<close>).\<close>

type_synonym captures = "jstring option \<times> jstring option \<times> jstring option"

text \<open>\<^verbatim>\<open>/test result:\s*(\w+)\.\s*(\d+)\s*passed;\s*(\d+)\s*failed;/\<close>\<close>

definition rust_result_match :: "jstring \<Rightarrow> captures option" where
  "rust_result_match s =
     (case expect (lit ''test result:'') s of
        None \<Rightarrow> None
      | Some s1 \<Rightarrow>
          (let s2 = dropWhile is_space s1;
               g1 = takeWhile is_word s2
           in if g1 = [] then None
              else
                (case expect (lit ''.'') (dropWhile is_word s2) of
                   None \<Rightarrow> None
                 | Some s3 \<Rightarrow>
                     (let s4 = dropWhile is_space s3;
                          g2 = takeWhile is_digit s4
                      in if g2 = [] then None
                         else
                           (case expect (lit ''passed;'')
                                   (dropWhile is_space (dropWhile is_digit s4)) of
                              None \<Rightarrow> None
                            | Some s5 \<Rightarrow>
                                (let s6 = dropWhile is_space s5;
                                     g3 = takeWhile is_digit s6
                                 in if g3 = [] then None
                                    else
                                      (case expect (lit ''failed;'')
                                              (dropWhile is_space (dropWhile is_digit s6)) of
                                         None \<Rightarrow> None
                                       | Some s7 \<Rightarrow> Some (Some g1, Some g2, Some g3))))))))"

text \<open>
  The optional group \<^verbatim>\<open>(?:,\s*(\d+)\s*word)?\<close>: its capture and the text behind it, or
  no capture and the text as it was.
\<close>

definition optional_count :: "jstring \<Rightarrow> jstring \<Rightarrow> jstring option \<times> jstring" where
  "optional_count word s =
     (case expect (lit '','') s of
        None \<Rightarrow> (None, s)
      | Some s1 \<Rightarrow>
          (let s2 = dropWhile is_space s1;
               g = takeWhile is_digit s2
           in if g = [] then (None, s)
              else
                (case expect_ci word (dropWhile is_space (dropWhile is_digit s2)) of
                   None \<Rightarrow> (None, s)
                 | Some s3 \<Rightarrow> (Some g, s3))))"

text \<open>
  \<^verbatim>\<open>/(\d+)\s*passed(?:,\s*(\d+)\s*failed)?(?:,\s*(\d+)\s*skipped)?/i\<close> and, with the
  words \<open>pass\<close>, \<open>fail\<close>, \<open>skip\<close>, the third expression.
\<close>

definition counts_match :: "jstring \<Rightarrow> jstring \<Rightarrow> jstring \<Rightarrow> jstring \<Rightarrow> captures option" where
  "counts_match passed_word failed_word skipped_word s =
     (let g1 = takeWhile is_digit s
      in if g1 = [] then None
         else
           (case expect_ci passed_word (dropWhile is_space (dropWhile is_digit s)) of
              None \<Rightarrow> None
            | Some s1 \<Rightarrow>
                (let (g2, s2) = optional_count failed_word s1;
                     (g3, s3) = optional_count skipped_word s2
                 in Some (Some g1, g2, g3))))"

text \<open>\<^verbatim>\<open>/tests?:\s*(\d+)\s*passed(?:,\s*(\d+)\s*failed)?(?:,\s*(\d+)\s*skipped)?/i\<close>\<close>

definition jest_match :: "jstring \<Rightarrow> captures option" where
  "jest_match s =
     (case expect_ci (lit ''test'') s of
        None \<Rightarrow> None
      | Some s1 \<Rightarrow>
          (let s2 = (case expect_ci (lit ''s'') s1 of None \<Rightarrow> s1 | Some t \<Rightarrow> t)
           in case expect (lit '':'') s2 of
                None \<Rightarrow> None
              | Some s3 \<Rightarrow>
                  counts_match (lit ''passed'') (lit ''failed'') (lit ''skipped'')
                    (dropWhile is_space s3)))"

definition TEST_RESULT_PATTERNS :: "(jstring \<Rightarrow> captures option) list" where
  "TEST_RESULT_PATTERNS =
     [rust_result_match,
      counts_match (lit ''passed'') (lit ''failed'') (lit ''skipped''),
      counts_match (lit ''pass'') (lit ''fail'') (lit ''skip''),
      jest_match]"

text \<open>
  \<open>parseInt(group, 10) || 0\<close> on a captured group: the value of its leading digits, 0
  when there are none or the group is \<open>undefined\<close>. Counts are natural numbers here; the
  source's doubles agree with them below \<open>2^53\<close>.
\<close>

definition digits_value :: "jstring \<Rightarrow> nat" where
  "digits_value ds = foldl (\<lambda>n d. 10 * n + (d - 48)) 0 ds"

definition parse_count :: "jstring option \<Rightarrow> nat" where
  "parse_count g = (case g of None \<Rightarrow> 0 | Some w \<Rightarrow> digits_value (takeWhile is_digit w))"

text \<open>The loop over the patterns: the first one that matches anywhere decides.\<close>

fun first_pattern :: "(jstring \<Rightarrow> captures option) list \<Rightarrow> jstring \<Rightarrow> captures option" where
  "first_pattern [] output = None"
| "first_pattern (pattern # patterns) output =
     (case regex_search pattern output of
        Some match \<Rightarrow> Some match
      | None \<Rightarrow> first_pattern patterns output)"

text \<open>The summary's \<open>passed\<close>, \<open>failed\<close>, \<open>skipped\<close>; \<open>None\<close> is the empty summary.\<close>

definition extractTestStats :: "jstring \<Rightarrow> (nat \<times> nat \<times> nat) option" where
  "extractTestStats output =
     (case first_pattern TEST_RESULT_PATTERNS output of
        None \<Rightarrow> None
      | Some (g1, g2, g3) \<Rightarrow> Some (parse_count g1, parse_count g2, parse_count g3))"

subsection \<open>Pass and fail markers\<close>

text \<open>
  \<^verbatim>\<open>/\b(ok|PASS|...)\b/\<close>: some position where one of the alternatives stands between
  two word boundaries. A boundary lies between a word character and a neighbour that is
  none (or the end of the line).
\<close>

definition nth_opt :: "jstring \<Rightarrow> nat \<Rightarrow> nat option" where
  "nth_opt s i = (if i < length s then Some (s ! i) else None)"

definition is_word_opt :: "nat option \<Rightarrow> bool" where
  "is_word_opt c = (case c of None \<Rightarrow> False | Some x \<Rightarrow> is_word x)"

definition boundary :: "nat option \<Rightarrow> nat option \<Rightarrow> bool" where
  "boundary a b \<longleftrightarrow> is_word_opt a \<noteq> is_word_opt b"

definition marker_at :: "jstring list \<Rightarrow> nat option \<Rightarrow> jstring \<Rightarrow> bool" where
  "marker_at alts prev s =
     (boundary prev (nth_opt s 0) \<and>
      list_ex (\<lambda>a. startsWith s a
                 \<and> boundary (if a = [] then prev else nth_opt s (length a - 1))
                      (nth_opt s (length a))) alts)"

fun marker_search :: "jstring list \<Rightarrow> nat option \<Rightarrow> jstring \<Rightarrow> bool" where
  "marker_search alts prev [] = marker_at alts prev []"
| "marker_search alts prev (c # cs) =
     (marker_at alts prev (c # cs) \<or> marker_search alts (Some c) cs)"

text \<open>The marks are U+2713, U+2714 and U+2717, U+2715.\<close>

definition has_pass_marker :: "jstring \<Rightarrow> bool" where
  "has_pass_marker line = marker_search [lit ''ok'', lit ''PASS'', [10003], [10004]] None line"

definition has_fail_marker :: "jstring \<Rightarrow> bool" where
  "has_fail_marker line = marker_search [lit ''FAIL'', lit ''fail'', [10007], [10005]] None line"

fun count_markers :: "jstring list \<Rightarrow> nat \<times> nat \<Rightarrow> nat \<times> nat" where
  "count_markers [] pf = pf"
| "count_markers (line # lines) (passed, failed) =
     count_markers lines
       (if has_pass_marker line then passed + 1 else passed,
        if has_fail_marker line then failed + 1 else failed)"

subsection \<open>Failure blocks\<close>

text \<open>\<^verbatim>\<open>\s+\<close> at the start of the text: at least one white space character.\<close>

definition spaces1 :: "jstring \<Rightarrow> jstring option" where
  "spaces1 s = (if takeWhile is_space s = [] then None else Some (dropWhile is_space s))"

text \<open>\<^verbatim>\<open>/test\s+\w+\s+\.\.\.\s*FAILED/\<close>\<close>

definition go_failed_match :: "jstring \<Rightarrow> unit option" where
  "go_failed_match s =
     (case expect (lit ''test'') s of
        None \<Rightarrow> None
      | Some s1 \<Rightarrow>
          (case spaces1 s1 of
             None \<Rightarrow> None
           | Some s2 \<Rightarrow>
               if takeWhile is_word s2 = [] then None
               else
                 (case spaces1 (dropWhile is_word s2) of
                    None \<Rightarrow> None
                  | Some s3 \<Rightarrow>
                      (case expect (lit ''...'') s3 of
                         None \<Rightarrow> None
                       | Some s4 \<Rightarrow>
                           (case expect (lit ''FAILED'') (dropWhile is_space s4) of
                              None \<Rightarrow> None
                            | Some s5 \<Rightarrow> Some ())))))"

text \<open>\<^verbatim>\<open>/thread\s+'\w+'\s+panicked/\<close>\<close>

definition rust_panic_match :: "jstring \<Rightarrow> unit option" where
  "rust_panic_match s =
     (case expect (lit ''thread'') s of
        None \<Rightarrow> None
      | Some s1 \<Rightarrow>
          (case spaces1 s1 of
             None \<Rightarrow> None
           | Some s2 \<Rightarrow>
               (case expect [39] s2 of
                  None \<Rightarrow> None
                | Some s3 \<Rightarrow>
                    if takeWhile is_word s3 = [] then None
                    else
                      (case expect [39] (dropWhile is_word s3) of
                         None \<Rightarrow> None
                       | Some s4 \<Rightarrow>
                           (case spaces1 s4 of
                              None \<Rightarrow> None
                            | Some s5 \<Rightarrow>
                                (case expect (lit ''panicked'') s5 of
                                   None \<Rightarrow> None
                                 | Some s6 \<Rightarrow> Some ()))))))"

text \<open>
  \<open>FAILURE_START_PATTERNS\<close>, in the order of the source: \<^verbatim>\<open>/^FAIL\s+/\<close>,
  \<^verbatim>\<open>/^FAILED\s+/\<close>, the bullets U+25CF and U+2715 after optional white space and
  before at least one white space character, and the two expressions above, anywhere in the
  line.
\<close>

definition isFailureStart :: "jstring \<Rightarrow> bool" where
  "isFailureStart line \<longleftrightarrow>
     (case expect (lit ''FAIL'') line of None \<Rightarrow> False | Some r \<Rightarrow> spaces1 r \<noteq> None) \<or>
     (case expect (lit ''FAILED'') line of None \<Rightarrow> False | Some r \<Rightarrow> spaces1 r \<noteq> None) \<or>
     (case expect [9679] (dropWhile is_space line) of
        None \<Rightarrow> False | Some r \<Rightarrow> spaces1 r \<noteq> None) \<or>
     (case expect [10005] (dropWhile is_space line) of
        None \<Rightarrow> False | Some r \<Rightarrow> spaces1 r \<noteq> None) \<or>
     regex_search go_failed_match line \<noteq> None \<or>
     regex_search rust_panic_match line \<noteq> None"

text \<open>
  The state of the extraction loop: \<open>inFailure\<close>, \<open>currentFailure\<close>, \<open>blankCount\<close> and
  the failures collected so far.
\<close>

type_synonym failure_state = "bool \<times> jstring list \<times> nat \<times> jstring list"

definition failure_step :: "jstring \<Rightarrow> failure_state \<Rightarrow> failure_state" where
  "failure_step line st =
     (case st of (inFailure, currentFailure, blankCount, failures) \<Rightarrow>
        if isFailureStart line
        then (True, [line], 0,
              if inFailure \<and> length currentFailure > 0
              then failures @ [join [10] currentFailure] else failures)
        else if inFailure
        then
          (if trim line = []
           then
             (if blankCount + 1 \<ge> 2 \<and> length currentFailure > 3
              then (False, [], blankCount + 1, failures @ [join [10] currentFailure])
              else (True, currentFailure @ [line], blankCount + 1, failures))
           else if (case line of [] \<Rightarrow> False | c # cs \<Rightarrow> is_space c) \<or> startsWith line (lit ''-'')
           then (True, currentFailure @ [line], 0, failures)
           else (False, [], blankCount, failures @ [join [10] currentFailure]))
        else st)"

definition extract_failures :: "jstring list \<Rightarrow> jstring list" where
  "extract_failures lines =
     (case foldl (\<lambda>st line. failure_step line st) (False, [], 0, []) lines of
        (inFailure, currentFailure, blankCount, failures) \<Rightarrow>
          if inFailure \<and> length currentFailure > 0
          then failures @ [join [10] currentFailure] else failures)"

subsection \<open>The summary\<close>

text \<open>One failure: its first line cut at 70, up to three more cut at 65.\<close>

definition render_failure :: "jstring \<Rightarrow> jstring list" where
  "render_failure failure =
     (let lines = split_on 10 failure;
          firstLine = (case lines of [] \<Rightarrow> [] | l # ls \<Rightarrow> l)
      in [lit ''   '' @ [8226] @ lit '' '' @ take 70 firstLine
            @ (if length firstLine > 70 then lit ''...'' else [])]
         @ concat (map (\<lambda>line. if trim line \<noteq> []
                                then [lit ''     '' @ take 65 line
                                        @ (if length line > 65 then lit ''...'' else [])]
                                else [])
                     (take 3 (drop 1 lines)))
         @ (if length lines > 4
            then [lit ''     ... ('' @ num_str (int (length lines) - 4) @ lit '' more lines)'']
            else []))"

text \<open>
  The marks of the summary are U+1F4CB, U+2705, U+274C and U+23ED U+FE0F.
\<close>

definition build_result :: "nat \<Rightarrow> nat \<Rightarrow> nat \<Rightarrow> jstring list \<Rightarrow> jstring list" where
  "build_result passed failed skipped failures =
     [[55357, 56523] @ lit '' Test Results:'',
      lit ''   '' @ [9989] @ lit '' '' @ num_str (int passed) @ lit '' passed'']
     @ (if failed > 0
        then [lit ''   '' @ [10060] @ lit '' '' @ num_str (int failed) @ lit '' failed'']
        else [])
     @ (if skipped > 0
        then [lit ''   '' @ [9197, 65039] @ lit ''  '' @ num_str (int skipped) @ lit '' skipped'']
        else [])
     @ (if failed > 0 \<and> length failures > 0
        then [[10] @ lit ''   Failures:'']
             @ concat (map render_failure (take 5 failures))
             @ (if length failures > 5
                then [lit ''   ... and '' @ num_str (int (length failures) - 5)
                        @ lit '' more failures'']
                else [])
        else [])"

definition aggregateTestOutput :: "jstring \<Rightarrow> jstring \<Rightarrow> jstring option" where
  "aggregateTestOutput output command =
     (if \<not> isTestCommand command then None
      else
        (let lines = split_on 10 output;
             stats = extractTestStats output;
             (passed0, failed0, skipped) =
               (case stats of None \<Rightarrow> (0, 0, 0) | Some pfs \<Rightarrow> pfs);
             (passed, failed) =
               (if passed0 = 0 \<and> failed0 = 0 then count_markers lines (passed0, failed0)
                else (passed0, failed0));
             failures = (if failed > 0 then extract_failures lines else [])
         in Some (join [10] (build_result passed failed skipped failures))))"

text \<open>Texts used as examples: the result line of a failing \<open>cargo test\<close> run, and an
  output in which the result line of an earlier, passing test binary precedes it.\<close>

definition failed_result_line :: jstring where
  "failed_result_line = lit ''test result: FAILED. 5 passed; 2 failed; 0 ignored''"

definition two_result_lines :: jstring where
  "two_result_lines =
     lit ''test result: ok. 3 passed; 0 failed; 0 ignored'' @ [10] @ failed_result_line"

section \<open>The orchestrator (\<open>tool.execute.after\<close> in src/plugin.ts)\<close>

text \<open>The running text and the technique label chain (\<open>null\<close> at first).\<close>

type_synonym acc = "jstring \<times> jstring option"

definition resolveSessionID :: "tool_input \<Rightarrow> jstring option" where
  "resolveSessionID value =
     (case sessionID value of
        Some s \<Rightarrow> if length s > 0 then Some s
                  else (case sessionId value of
                          Some s' \<Rightarrow> if length s' > 0 then Some s' else None
                        | None \<Rightarrow> None)
      | None \<Rightarrow> (case sessionId value of
                   Some s' \<Rightarrow> if length s' > 0 then Some s' else None
                 | None \<Rightarrow> None))"

text \<open>\<^verbatim>\<open>technique ? `${technique},label` : 'label'\<close>\<close>

definition add_label :: "jstring option \<Rightarrow> jstring \<Rightarrow> jstring" where
  "add_label technique label =
     (case technique of
        None \<Rightarrow> label
      | Some t \<Rightarrow> if t = [] then label else t @ lit '','' @ label)"

text \<open>Sequencing inside the \<open>try\<close> block: a throw skips everything that follows.\<close>

definition and_then :: "fault + 'a \<Rightarrow> ('a \<Rightarrow> fault + 'b) \<Rightarrow> fault + 'b" where
  "and_then r f = (case r of Inl e \<Rightarrow> Inl e | Inr x \<Rightarrow> f x)"

text \<open>Phase 1: ANSI stripping.\<close>

definition ansi_step :: "stages \<Rightarrow> RtkConfig \<Rightarrow> acc \<Rightarrow> fault + acc" where
  "ansi_step S config a =
     (case a of (result, technique) \<Rightarrow>
        if ansiStripping (techniques config)
        then and_then (f_stripAnsiFast S result)
               (\<lambda>stripped. if stripped \<noteq> result
                            then Inr (stripped, Some (lit ''ansi-stripping''))
                            else Inr (result, technique))
        else Inr (result, technique))"

text \<open>
  Phase 2: a command filter, behind its enable flag; its result is used when it is neither
  \<open>null\<close> nor equal to the current text.
\<close>

definition command_step ::
  "bool \<Rightarrow> (jstring \<Rightarrow> fault + jstring option) \<Rightarrow> jstring \<Rightarrow> acc \<Rightarrow> fault + acc" where
  "command_step flag apply_filter label a =
     (case a of (result, technique) \<Rightarrow>
        if flag
        then and_then (apply_filter result)
               (\<lambda>filtered. case filtered of
                    None \<Rightarrow> Inr (result, technique)
                  | Some f \<Rightarrow> if f \<noteq> result then Inr (f, Some (add_label technique label))
                              else Inr (result, technique))
        else Inr (result, technique))"

definition bash_steps :: "stages \<Rightarrow> RtkConfig \<Rightarrow> jstring \<Rightarrow> (acc \<Rightarrow> fault + acc) list" where
  "bash_steps S config command =
     [ command_step (buildOutputFiltering (techniques config))
         (\<lambda>r. f_filterBuildOutput S r command) (lit ''build-filter''),
       command_step (testOutputAggregation (techniques config))
         (\<lambda>r. f_aggregateTestOutput S r command) (lit ''test-aggregate''),
       command_step (linterAggregation (techniques config))
         (\<lambda>r. f_aggregateLinterOutput S r command) (lit ''linter-aggregate''),
       command_step (gitCompaction (techniques config))
         (\<lambda>r. f_compactGitOutput S r command) (lit ''git-compact''),
       command_step (searchResultGrouping (techniques config))
         (\<lambda>r. f_groupSearchResults S r) (lit ''search-group'') ]"

text \<open>Phase 3: source code filtering, then smart truncation.\<close>

definition source_filter_step :: "stages \<Rightarrow> RtkConfig \<Rightarrow> jstring \<Rightarrow> acc \<Rightarrow> fault + acc" where
  "source_filter_step S config language a =
     (case a of (result, technique) \<Rightarrow>
        if sourceCodeFiltering (techniques config) = FL_minimal
        then and_then (f_filterMinimal S result language)
               (\<lambda>filtered. if filtered \<noteq> result
                            then Inr (filtered, Some (add_label technique (lit ''source-minimal'')))
                            else Inr (result, technique))
        else if sourceCodeFiltering (techniques config) = FL_aggressive
        then and_then (f_filterAggressive S result language)
               (\<lambda>filtered. if filtered \<noteq> result
                            then Inr (filtered,
                                      Some (add_label technique (lit ''source-aggressive'')))
                            else Inr (result, technique))
        else Inr (result, technique))"

definition smart_truncation_step :: "stages \<Rightarrow> RtkConfig \<Rightarrow> acc \<Rightarrow> fault + acc" where
  "smart_truncation_step S config a =
     (case a of (result, technique) \<Rightarrow>
        if smart_enabled (smartTruncation (techniques config))
        then
          (let lines = split_on 10 result
           in if int (length lines) > smart_maxLines (smartTruncation (techniques config))
              then and_then
                     (f_smartTruncate S result
                        (smart_maxLines (smartTruncation (techniques config))))
                     (\<lambda>r. Inr (r, Some (add_label technique (lit ''smart-truncate''))))
              else Inr (result, technique))
        else Inr (result, technique))"

definition read_step :: "stages \<Rightarrow> RtkConfig \<Rightarrow> jstring \<Rightarrow> acc \<Rightarrow> fault + acc" where
  "read_step S config filePath a =
     and_then (f_detectLanguage S filePath)
       (\<lambda>language.
          if language \<noteq> lit ''unknown'' \<and> sourceCodeFiltering (techniques config) \<noteq> FL_none
          then and_then (source_filter_step S config language a)
                 (smart_truncation_step S config)
          else Inr a)"

text \<open>Hard truncation, last.\<close>

definition truncate_step :: "stages \<Rightarrow> RtkConfig \<Rightarrow> acc \<Rightarrow> fault + acc" where
  "truncate_step S config a =
     (case a of (result, technique) \<Rightarrow>
        if trunc_enabled (truncation (techniques config))
           \<and> int (length result) > trunc_maxChars (truncation (techniques config))
        then and_then (f_truncate S result (trunc_maxChars (truncation (techniques config))))
               (\<lambda>r. Inr (r, Some (add_label technique (lit ''truncate''))))
        else Inr (result, technique))"

text \<open>
  The body of the \<open>try\<close> block up to the comparison with the original: the stages in the
  order of the source. An argument is used when it is truthy, that is present and not the
  empty string.
\<close>

definition stage_list :: "stages \<Rightarrow> RtkConfig \<Rightarrow> tool_input \<Rightarrow> (acc \<Rightarrow> fault + acc) list" where
  "stage_list S config input =
     [ansi_step S config]
     @ (case args_command input of
          Some command \<Rightarrow>
            if tool input = lit ''bash'' \<and> command \<noteq> [] then bash_steps S config command else []
        | None \<Rightarrow> [])
     @ (case args_filePath input of
          Some filePath \<Rightarrow>
            if tool input = lit ''read'' \<and> filePath \<noteq> [] then [read_step S config filePath]
            else []
        | None \<Rightarrow> [])
     @ [truncate_step S config]"

fun run_steps :: "(acc \<Rightarrow> fault + acc) list \<Rightarrow> acc \<Rightarrow> fault + acc" where
  "run_steps [] a = Inr a"
| "run_steps (s # ss) a = and_then (s a) (run_steps ss)"

definition pipeline :: "stages \<Rightarrow> RtkConfig \<Rightarrow> tool_input \<Rightarrow> jstring \<Rightarrow> fault + acc" where
  "pipeline S config input original = run_steps (stage_list S config input) (original, None)"

definition recordAndLog ::
  "RtkConfig \<Rightarrow> jstring \<Rightarrow> jstring \<Rightarrow> jstring \<Rightarrow> jstring \<Rightarrow> jstring \<Rightarrow> jstring
     \<Rightarrow> plugin_state \<Rightarrow> plugin_state" where
  "recordAndLog config now original filtered tool_name technique session st =
     (let originalChars = length original;
          filteredChars = length filtered;
          savingsPercent =
            (if originalChars > 0
             then Math_round
                    (((of_int (int originalChars - int filteredChars)) / of_nat originalChars)
                       * 100 * 100) / 100
             else 0);
          record =
            \<lparr> m_timestamp = now, m_sessionId = session, m_tool = tool_name,
              m_technique = technique, m_originalChars = originalChars,
              m_filteredChars = filteredChars, m_savingsPercent = savingsPercent \<rparr>;
          st1 = st \<lparr> sessionMetrics := sessionMetrics st @ [record] \<rparr>;
          st2 = (if logSavings config \<and> savingsPercent > 0
                 then st1 \<lparr> app_log := app_log st1
                        @ [LogSavings tool_name technique savingsPercent originalChars
                             filteredChars] \<rparr>
                 else st1)
      in st2 \<lparr> metricsFile := metricsFile st2 @ [record] \<rparr>)"

text \<open>
  What follows the stages: on a normal end the comparison with the original, the write to
  \<open>output.output\<close> and the record; on a throw the \<open>catch\<close> block, which logs a warning
  and changes nothing else.
\<close>

definition finish ::
  "RtkConfig \<Rightarrow> jstring \<Rightarrow> tool_input \<Rightarrow> jstring \<Rightarrow> fault + acc \<Rightarrow> plugin_state
     \<Rightarrow> plugin_state" where
  "finish config now input original outcome st =
     (case outcome of
        Inl error \<Rightarrow> st \<lparr> app_log := app_log st @ [LogFilterError (tool input) error] \<rparr>
      | Inr (result, technique) \<Rightarrow>
          if result \<noteq> original
          then (case resolveSessionID input of
                  None \<Rightarrow> st
                | Some session \<Rightarrow>
                    recordAndLog config now original result (tool input)
                      (case technique of
                         None \<Rightarrow> lit ''unknown''
                       | Some t \<Rightarrow> if t = [] then lit ''unknown'' else t)
                      session (st \<lparr> output_field := OutString result \<rparr>))
          else st)"

text \<open>
  The hook over a given list of stages: the guard on \<open>output.output\<close>, the stages, the
  end. \<open>now\<close> is the time stamp the record gets.
\<close>

definition process_output ::
  "(acc \<Rightarrow> fault + acc) list \<Rightarrow> RtkConfig \<Rightarrow> jstring \<Rightarrow> tool_input \<Rightarrow> plugin_state
     \<Rightarrow> plugin_state" where
  "process_output steps config now input st =
     (case output_field st of
        OutOther \<Rightarrow> st
      | OutString original \<Rightarrow>
          if original = [] then st
          else finish config now input original (run_steps steps (original, None)) st)"

definition tool_execute_after ::
  "stages \<Rightarrow> RtkConfig \<Rightarrow> jstring \<Rightarrow> tool_input \<Rightarrow> plugin_state \<Rightarrow> plugin_state" where
  "tool_execute_after S config now input st =
     process_output (stage_list S config input) config now input st"

section \<open>Stage families used as examples\<close>

text \<open>
  The two filters modelled above, never throwing, and every other filter not applicable
  or leaving the text as it is.
\<close>

definition quiet_stages :: stages where
  "quiet_stages =
     \<lparr> f_stripAnsiFast = (\<lambda>t. Inr (stripAnsiFast t)),
       f_filterBuildOutput = (\<lambda>t c. Inr None),
       f_aggregateTestOutput = (\<lambda>t c. Inr None),
       f_aggregateLinterOutput = (\<lambda>t c. Inr None),
       f_compactGitOutput = (\<lambda>t c. Inr None),
       f_groupSearchResults = (\<lambda>t. Inr None),
       f_detectLanguage = (\<lambda>p. Inr (lit ''unknown'')),
       f_filterMinimal = (\<lambda>t l. Inr t),
       f_filterAggressive = (\<lambda>t l. Inr t),
       f_smartTruncate = (\<lambda>t n. Inr t),
       f_truncate = (\<lambda>t n. Inr (truncate t n)) \<rparr>"

text \<open>
  A family whose build filter throws and whose test aggregator would replace any text by
  a summary.
\<close>

definition build_throws :: stages where
  "build_throws =
     quiet_stages
       \<lparr> f_filterBuildOutput := (\<lambda>t c. Inl (Fault (lit ''boom''))),
         f_aggregateTestOutput := (\<lambda>t c. Inr (Some (lit ''summary''))) \<rparr>"

definition cargo_test_input :: tool_input where
  "cargo_test_input =
     \<lparr> tool = lit ''bash'', sessionID = Some (lit ''ses_a''), sessionId = None,
       args_command = Some (lit ''cargo test''), args_filePath = None \<rparr>"

text \<open>A state whose output is \<open>hello\<close> in red: \<open>ESC [ 3 1 m hello ESC [ 0 m\<close>.\<close>

definition red_hello :: jstring where
  "red_hello = [27, 91, 51, 49, 109] @ lit ''hello'' @ [27, 91, 48, 109]"

definition red_hello_state :: plugin_state where
  "red_hello_state =
     \<lparr> output_field = OutString red_hello, sessionMetrics = [], app_log = [],
       metricsFile = [] \<rparr>"

text \<open>
  The recovery that claim C6 describes, in the spec's words: a stage that throws is caught
  on the spot and counts as having done nothing, so that the next stage goes on with the
  text as it stood before the fault.
\<close>

definition recover_text :: "jstring \<Rightarrow> fault + jstring \<Rightarrow> fault + jstring" where
  "recover_text before r = (case r of Inl e \<Rightarrow> Inr before | Inr t \<Rightarrow> Inr t)"

definition recover_null :: "fault + jstring option \<Rightarrow> fault + jstring option" where
  "recover_null r = (case r of Inl e \<Rightarrow> Inr None | Inr t \<Rightarrow> Inr t)"

definition spec_continue_after_fault :: "stages \<Rightarrow> stages" where
  "spec_continue_after_fault S =
     \<lparr> f_stripAnsiFast = (\<lambda>t. recover_text t (f_stripAnsiFast S t)),
       f_filterBuildOutput = (\<lambda>t c. recover_null (f_filterBuildOutput S t c)),
       f_aggregateTestOutput = (\<lambda>t c. recover_null (f_aggregateTestOutput S t c)),
       f_aggregateLinterOutput = (\<lambda>t c. recover_null (f_aggregateLinterOutput S t c)),
       f_compactGitOutput = (\<lambda>t c. recover_null (f_compactGitOutput S t c)),
       f_groupSearchResults = (\<lambda>t. recover_null (f_groupSearchResults S t)),
       f_detectLanguage = (\<lambda>p. recover_text (lit ''unknown'') (f_detectLanguage S p)),
       f_filterMinimal = (\<lambda>t l. recover_text t (f_filterMinimal S t l)),
       f_filterAggressive = (\<lambda>t l. recover_text t (f_filterAggressive S t l)),
       f_smartTruncate = (\<lambda>t n. recover_text t (f_smartTruncate S t n)),
       f_truncate = (\<lambda>t n. recover_text t (f_truncate S t n)) \<rparr>"

section \<open>Properties of the truncation filter\<close>

lemma lit_length [simp]: "length (lit s) = length s"
  by (simp add: lit_def)

text \<open>
  Claim C7 (\<open>budget\<close> stands for \<open>maxChars\<close>). A text no longer than \<open>maxChars\<close> is returned unchanged. A longer text becomes
  the three-character ellipsis when \<open>maxChars < 3\<close>, and otherwise its first
  \<open>maxChars - 3\<close> characters, a newline, and the marker
  \<open>... [truncated: <omitted> chars omitted]\<close> with
  \<open>omitted = len(text) - (maxChars - 3)\<close>. In particular
  \<open>truncate("hello world", 10)\<close> is \<open>hello w\<close>, a newline and
  \<open>... [truncated: 4 chars omitted]\<close>.
\<close>

theorem truncate_cases:
  "(int (length text) \<le> budget \<longrightarrow> truncate text budget = text) \<and>
   (budget < int (length text) \<and> budget < 3 \<longrightarrow> truncate text budget = lit ''...'') \<and>
   (budget < int (length text) \<and> 3 \<le> budget \<longrightarrow>
      truncate text budget =
        take (nat (budget - 3)) text @ [10] @ lit ''... [truncated: ''
          @ num_str (int (length text) - (budget - 3)) @ lit '' chars omitted]'') \<and>
   truncate (lit ''hello world'') 10
     = lit ''hello w'' @ [10] @ lit ''... [truncated: 4 chars omitted]''"
  by (simp add: truncate_def Let_def num_str_def dec_digits.simps) (simp add: lit_def)

theorem truncate_cases_witness:
  "(int (length (lit ''hello'')) \<le> 5 \<and> truncate (lit ''hello'') 5 = lit ''hello'') \<and>
   (2 < int (length (lit ''hello'')) \<and> (2::int) < 3 \<and> truncate (lit ''hello'') 2 = lit ''...'') \<and>
   (3 < int (length (lit ''hello'')) \<and> (3::int) \<le> 3 \<and>
      truncate (lit ''hello'') 3 = [10] @ lit ''... [truncated: 5 chars omitted]'')"
  using truncate_cases [of "lit ''hello''" 5] truncate_cases [of "lit ''hello''" 2]
    truncate_cases [of "lit ''hello''" 3]
  by (simp add: num_str_def dec_digits.simps) (simp add: lit_def)

text \<open>
  Claim C2 as stated: whenever \<open>len(t) > n\<close>, \<open>len(truncate(t, n)) \<le> max(n, 3)\<close>.
  It fails at \<open>truncate("hello world", 10)\<close>, whose result has 40 characters: the
  marker is appended to the \<open>n - 3\<close> retained characters, not fitted into the budget.
\<close>

theorem truncate_bound_counterexample:
  "10 < int (length (lit ''hello world'')) \<and>
   \<not> int (length (truncate (lit ''hello world'') 10)) \<le> max 10 3"
  by (simp add: truncate_def Let_def num_str_def dec_digits.simps)

text \<open>
  Claim C2, amended. If \<open>len(t) \<le> n\<close> then \<open>truncate(t, n) = t\<close>. If \<open>len(t) > n\<close> and
  \<open>n < 3\<close> the result has exactly 3 characters, which is \<open>max(n, 3)\<close>. If \<open>len(t) > n\<close>
  and \<open>n \<ge> 3\<close> the result has \<open>n + 29 + d\<close> characters, where \<open>d\<close> is the number of
  decimal digits of \<open>len(t) - (n - 3)\<close>; so it is longer than \<open>max(n, 3)\<close>.
\<close>

theorem truncate_length:
  "(int (length t) \<le> n \<longrightarrow> truncate t n = t) \<and>
   (n < int (length t) \<and> n < 3 \<longrightarrow> int (length (truncate t n)) = max n 3) \<and>
   (n < int (length t) \<and> 3 \<le> n \<longrightarrow>
      int (length (truncate t n)) = n + 29 + int (length (num_str (int (length t) - (n - 3))))
      \<and> max n 3 < int (length (truncate t n)))"
  by (auto simp add: truncate_def Let_def)

theorem truncate_length_witness:
  "(int (length (lit ''hello'')) \<le> 5 \<and> truncate (lit ''hello'') 5 = lit ''hello'') \<and>
   (2 < int (length (lit ''hello'')) \<and> (2::int) < 3
      \<and> int (length (truncate (lit ''hello'') 2)) = max 2 3) \<and>
   (10 < int (length (lit ''hello world'')) \<and> (3::int) \<le> 10
      \<and> int (length (truncate (lit ''hello world'') 10)) = 10 + 29 + 1)"
  using truncate_length [of "lit ''hello''" 5] truncate_length [of "lit ''hello''" 2]
    truncate_length [of "lit ''hello world''" 10]
  by (simp add: num_str_def dec_digits.simps)

section \<open>Properties of the configuration merge\<close>




section \<open>Properties of the git status compaction\<close>

text \<open>
  What the loop body does with one porcelain line \<open>X Y sep name\<close>: the code \<open>??\<close> counts
  as untracked only; otherwise the index column \<open>X\<close> decides staged (one of M, A, D, R, C)
  and conflict (\<open>X\<close> is U), and the worktree column \<open>Y\<close> decides modified (M or D). The
  worktree column is never compared with U.
\<close>

lemma status_entry_buckets:
  fixes x y sep :: nat and name :: jstring
  defines "s \<equiv> status_entry (x # y # sep # name) empty_stats"
  shows "untracked s = (if x = 63 \<and> y = 63 then 1 else 0)"
    and "staged s = (if \<not> (x = 63 \<and> y = 63) \<and> x \<in> {77, 65, 68, 82, 67} then 1 else 0)"
    and "conflicts s = (if \<not> (x = 63 \<and> y = 63) \<and> x = 85 then 1 else 0)"
    and "modified s = (if \<not> (x = 63 \<and> y = 63) \<and> y \<in> {77, 68} then 1 else 0)"
  unfolding s_def
  by (auto simp add: status_entry_def empty_stats_def lit_def Let_def)

text \<open>
  Claim C5 says a line is a conflict when U appears in either column. At the porcelain
  line \<open>AU file.txt\<close> (unmerged, added by us) U is in the worktree column: the line is
  counted as staged, no conflict is counted, and the summary has no conflict line.
\<close>

theorem compactStatus_worktree_U_not_conflict:
  "conflicts (snd (status_loop 0 (split_on 10 (lit ''AU file.txt'')) ([], empty_stats))) = 0 \<and>
   staged (snd (status_loop 0 (split_on 10 (lit ''AU file.txt'')) ([], empty_stats))) = 1 \<and>
   compactStatus (lit ''AU file.txt'')
     = [9989] @ lit '' Staged: 1 files'' @ [10] @ lit ''  file.txt''"
  by (simp add: compactStatus_def status_summary_def status_entry_def empty_stats_def
      lit_def Let_def startsWith_def trim_def is_space_def num_str_def dec_digits.simps)

section \<open>Properties of the ANSI filter\<close>

lemma includes_str_single: "includes_str s [c] \<longleftrightarrow> c \<in> set s"
  by (induction s) (auto simp add: startsWith_def)

lemma replace_all_no_start:
  assumes "\<And>s. m s \<noteq> None \<Longrightarrow> s \<noteq> [] \<and> hd s = e"
    and "e \<notin> set t"
  shows "replace_all m t = t"
  using assms(2)
proof (induction t)
  case Nil
  show ?case by simp
next
  case (Cons c cs)
  have "m (c # cs) = None"
    using assms(1) [of "c # cs"] Cons.prems by (cases "m (c # cs)") auto
  with Cons show ?case by simp
qed

lemma csi_match_start: "csi_match s \<noteq> None \<Longrightarrow> s \<noteq> [] \<and> hd s = 27"
  by (cases s) (auto simp add: csi_match_def startsWith_def split: if_splits)

lemma osc_param_match_start: "osc_param_match s \<noteq> None \<Longrightarrow> s \<noteq> [] \<and> hd s = 27"
  by (cases s) (auto simp add: osc_param_match_def startsWith_def split: if_splits)

lemma osc_any_match_start: "osc_any_match s \<noteq> None \<Longrightarrow> s \<noteq> [] \<and> hd s = 27"
  by (cases s) (auto simp add: osc_any_match_def startsWith_def split: if_splits)

lemma stripAnsi_no_escape: "27 \<notin> set t \<Longrightarrow> stripAnsi t = t"
  by (simp add: stripAnsi_def replace_all_no_start [OF csi_match_start]
      replace_all_no_start [OF osc_param_match_start]
      replace_all_no_start [OF osc_any_match_start])

text \<open>
  How the three passes treat a text whose sequences are complete: the first deletes the
  CSI sequences and keeps every OSC sequence whole, the second deletes some OSC sequences
  and keeps the others whole, the third deletes the rest.
\<close>

lemma replace_all_plain:
  assumes "\<And>s. m s \<noteq> None \<Longrightarrow> s \<noteq> [] \<and> hd s = 27"
    and "27 \<notin> set b"
  shows "replace_all m (b @ x) = b @ replace_all m x"
  using assms(2)
proof (induction b)
  case Nil
  show ?case by simp
next
  case (Cons c cs)
  have "m (c # cs @ x) = None"
    using assms(1) [of "c # cs @ x"] Cons.prems by (cases "m (c # cs @ x)") auto
  with Cons show ?case by simp
qed

lemma osc_end_Some:
  "osc_end d = Some e \<Longrightarrow> \<exists>t. term_ok t \<and> d = t @ drop e d \<and> e = length t"
  by (cases d; cases "tl d")
     (auto simp add: osc_end_def startsWith_def term_ok_def split: if_splits)

lemma osc_any_match_structure:
  assumes "osc_any_match s = Some n"
  shows "\<exists>b t. body_ok b \<and> term_ok t \<and> s = 27 # 93 # b @ t @ drop n s
           \<and> n = 2 + length b + length t"
proof -
  let ?P = "\<lambda>c. c \<noteq> (7::nat) \<and> c \<noteq> 27"
  from assms have sw: "startsWith s [27, 93]"
    by (simp add: osc_any_match_def split: if_splits)
  then have s: "s = 27 # 93 # drop 2 s"
    by (cases s; cases "tl s") (auto simp add: startsWith_def)
  from assms sw obtain e where e: "osc_end (dropWhile ?P (drop 2 s)) = Some e"
    and n: "n = 2 + length (takeWhile ?P (drop 2 s)) + e"
    by (auto simp add: osc_any_match_def Let_def split: option.splits)
  from osc_end_Some [OF e] obtain t where t: "term_ok t"
    "dropWhile ?P (drop 2 s) = t @ drop e (dropWhile ?P (drop 2 s))" "e = length t"
    by blast
  let ?b = "takeWhile ?P (drop 2 s)"
  have b: "body_ok ?b"
    by (auto simp add: body_ok_def dest: set_takeWhileD)
  have d2: "drop 2 s = ?b @ dropWhile ?P (drop 2 s)"
    by simp
  have "drop n s = drop (length ?b + e) (drop 2 s)"
    using n by (simp add: add.commute)
  also have "\<dots> = drop e (dropWhile ?P (drop 2 s))"
    by (subst d2) (simp del: takeWhile_dropWhile_id)
  finally have dn: "drop n s = drop e (dropWhile ?P (drop 2 s))" .
  have "s = 27 # 93 # ?b @ t @ drop n s"
    using s d2 t(2) dn by metis
  with b t n show ?thesis by blast
qed

lemma no_match_other_second:
  "csi_match (27 # 93 # y) = None"
  "csi_match (27 # 92 # y) = None"
  "osc_param_match (27 # 92 # y) = None"
  "osc_any_match (27 # 92 # y) = None"
  by (simp_all add: csi_match_def osc_param_match_def osc_any_match_def startsWith_def)

lemma no_match_plain_head:
  "c \<noteq> 27 \<Longrightarrow> csi_match (c # y) = None"
  "c \<noteq> 27 \<Longrightarrow> osc_param_match (c # y) = None"
  "c \<noteq> 27 \<Longrightarrow> osc_any_match (c # y) = None"
  by (simp_all add: csi_match_def osc_param_match_def osc_any_match_def startsWith_def)

lemma body_ok_no_escape: "body_ok b \<Longrightarrow> 27 \<notin> set b"
  by (auto simp add: body_ok_def)

lemma csi_keeps_term:
  "term_ok t \<Longrightarrow> replace_all csi_match (t @ x) = t @ replace_all csi_match x"
  by (auto simp add: term_ok_def no_match_other_second no_match_plain_head)

lemma osc_param_keeps_term:
  "term_ok t \<Longrightarrow> replace_all osc_param_match (t @ x) = t @ replace_all osc_param_match x"
  by (auto simp add: term_ok_def no_match_other_second no_match_plain_head)

lemma csi_keeps_osc:
  assumes "body_ok b" "term_ok t"
  shows "replace_all csi_match (27 # 93 # b @ t @ x) = 27 # 93 # b @ t @ replace_all csi_match x"
proof -
  have "replace_all csi_match (b @ t @ x) = b @ replace_all csi_match (t @ x)"
    by (rule replace_all_plain [OF csi_match_start body_ok_no_escape [OF assms(1)]])
  then show ?thesis
    by (simp add: no_match_other_second no_match_plain_head csi_keeps_term [OF assms(2)])
qed

lemma takeWhile_body:
  assumes "body_ok b" "term_ok t"
  shows "takeWhile (\<lambda>c. c \<noteq> 7 \<and> c \<noteq> 27) (b @ t @ x) = b"
    and "dropWhile (\<lambda>c. c \<noteq> 7 \<and> c \<noteq> 27) (b @ t @ x) = t @ x"
  using assms by (auto simp add: body_ok_def term_ok_def)

lemma osc_end_term: "term_ok t \<Longrightarrow> osc_end (t @ x) = Some (length t)"
  by (auto simp add: term_ok_def osc_end_def startsWith_def)

lemma osc_any_match_osc:
  assumes "body_ok b" "term_ok t"
  shows "osc_any_match (27 # 93 # b @ t @ x) = Some (2 + length b + length t)"
  by (simp add: osc_any_match_def startsWith_def takeWhile_body [OF assms]
      osc_end_term [OF assms(2)])

lemma osc_param_match_osc:
  assumes "body_ok b" "term_ok t"
  shows "osc_param_match (27 # 93 # b @ t @ x) = None
       \<or> osc_param_match (27 # 93 # b @ t @ x) = Some (2 + length b + length t)"
proof (cases "\<forall>c \<in> set b. is_param c")
  case True
  have np: "\<not> is_param 7" "\<not> is_param 27"
    by (simp_all add: is_param_def)
  from assms(2) obtain h r where t: "t = h # r" "\<not> is_param h"
    using np by (auto simp add: term_ok_def)
  have "takeWhile is_param (b @ t @ x) = b" "dropWhile is_param (b @ t @ x) = t @ x"
    using True t by simp_all
  then show ?thesis
    by (simp add: osc_param_match_def startsWith_def osc_end_term [OF assms(2)])
next
  case False
  then obtain p c q where b: "b = p @ c # q" "\<not> is_param c" "\<forall>z \<in> set p. is_param z"
    using split_list_first_prop [of b "\<lambda>c. \<not> is_param c"] by auto
  from assms(1) b(1) have c: "c \<noteq> 7" "c \<noteq> 27"
    by (simp_all add: body_ok_def)
  have "dropWhile is_param (b @ t @ x) = c # q @ t @ x"
    using b by simp
  moreover have "osc_end (c # q @ t @ x) = None"
    using c by (simp add: osc_end_def startsWith_def)
  ultimately show ?thesis
    by (simp add: osc_param_match_def startsWith_def)
qed

lemma osc_param_on_osc:
  assumes "body_ok b" "term_ok t"
  shows "replace_all osc_param_match (27 # 93 # b @ t @ x) = replace_all osc_param_match x
       \<or> replace_all osc_param_match (27 # 93 # b @ t @ x)
            = 27 # 93 # b @ t @ replace_all osc_param_match x"
proof -
  have body: "replace_all osc_param_match (b @ t @ x) = b @ t @ replace_all osc_param_match x"
    using replace_all_plain [OF osc_param_match_start body_ok_no_escape [OF assms(1)]]
    by (simp add: osc_param_keeps_term [OF assms(2)])
  from osc_param_match_osc [OF assms, of x] show ?thesis
  proof
    assume "osc_param_match (27 # 93 # b @ t @ x) = None"
    then show ?thesis
      by (simp add: no_match_plain_head body)
  next
    assume "osc_param_match (27 # 93 # b @ t @ x) = Some (2 + length b + length t)"
    then show ?thesis by simp
  qed
qed

lemma osc_any_on_osc:
  assumes "body_ok b" "term_ok t"
  shows "replace_all osc_any_match (27 # 93 # b @ t @ x) = replace_all osc_any_match x"
  by (simp add: osc_any_match_osc [OF assms])

lemma osc_complete_plain: "c \<noteq> 27 \<Longrightarrow> osc_complete t \<Longrightarrow> osc_complete (c # t)"
  by (simp add: osc_complete.simps)

lemma osc_complete_osc:
  assumes "body_ok b" "term_ok t" "osc_complete x"
  shows "osc_complete (27 # 93 # b @ t @ x)"
  using assms(3) by (simp add: osc_complete.simps osc_any_match_osc [OF assms(1,2)])

lemma csi_match_pos: "csi_match s = Some n \<Longrightarrow> 0 < n"
  by (auto simp add: csi_match_def Let_def split: if_splits list.splits)

lemma csi_pass_leaves_osc:
  "sequences_complete t \<Longrightarrow> osc_complete (replace_all csi_match t)"
proof (induction t rule: sequences_complete.induct)
  case 1
  show ?case by (simp add: osc_complete.simps)
next
  case (2 c cs)
  show ?case
  proof (cases "c \<noteq> 27")
    case True
    with "2.prems" have "sequences_complete cs"
      by (simp add: sequences_complete.simps)
    with True have "osc_complete (replace_all csi_match cs)"
      using "2.IH" by blast
    with True show ?thesis
      by (simp add: no_match_plain_head osc_complete_plain)
  next
    case False
    then have c: "c = 27" by simp
    show ?thesis
    proof (cases "csi_match (c # cs)")
      case (Some n)
      with False "2.prems" have "sequences_complete (drop (n - 1) cs)"
        by (simp add: sequences_complete.simps)
      with False Some have "osc_complete (replace_all csi_match (drop (n - 1) cs))"
        using "2.IH" by blast
      with Some csi_match_pos [OF Some] show ?thesis by simp
    next
      case None
      with False "2.prems" obtain n where n: "osc_any_match (c # cs) = Some n"
        and sc: "sequences_complete (drop (n - 1) cs)"
        by (auto simp add: sequences_complete.simps split: option.splits)
      from osc_any_match_structure [OF n] obtain b t where bt: "body_ok b" "term_ok t"
        "c # cs = 27 # 93 # b @ t @ drop n (c # cs)" "n = 2 + length b + length t"
        by blast
      have d: "drop n (c # cs) = drop (n - 1) cs"
        using bt(4) by (cases n) simp_all
      from False None n sc have "osc_complete (replace_all csi_match (drop (n - 1) cs))"
        using "2.IH" by blast
      then have "osc_complete (27 # 93 # b @ t @ replace_all csi_match (drop (n - 1) cs))"
        by (rule osc_complete_osc [OF bt(1,2)])
      then have "osc_complete (replace_all csi_match (27 # 93 # b @ t @ drop (n - 1) cs))"
        unfolding csi_keeps_osc [OF bt(1,2)] .
      with bt(3) d show ?thesis by simp
    qed
  qed
qed

lemma osc_param_pass_leaves_osc:
  "osc_complete t \<Longrightarrow> osc_complete (replace_all osc_param_match t)"
proof (induction t rule: osc_complete.induct)
  case 1
  show ?case by (simp add: osc_complete.simps)
next
  case (2 c cs)
  show ?case
  proof (cases "c \<noteq> 27")
    case True
    with "2.prems" have "osc_complete cs"
      by (simp add: osc_complete.simps)
    with True have "osc_complete (replace_all osc_param_match cs)"
      using "2.IH" by blast
    with True show ?thesis
      by (simp add: no_match_plain_head osc_complete_plain)
  next
    case False
    with "2.prems" obtain n where n: "osc_any_match (c # cs) = Some n"
      and sc: "osc_complete (drop (n - 1) cs)"
      by (auto simp add: osc_complete.simps split: option.splits)
    from osc_any_match_structure [OF n] obtain b t where bt: "body_ok b" "term_ok t"
      "c # cs = 27 # 93 # b @ t @ drop n (c # cs)" "n = 2 + length b + length t"
      by blast
    have d: "drop n (c # cs) = drop (n - 1) cs"
      using bt(4) by (cases n) simp_all
    let ?x = "drop (n - 1) cs"
    from False n sc have ih: "osc_complete (replace_all osc_param_match ?x)"
      using "2.IH" by blast
    then have "osc_complete (27 # 93 # b @ t @ replace_all osc_param_match ?x)"
      by (rule osc_complete_osc [OF bt(1,2)])
    with ih have "osc_complete (replace_all osc_param_match (27 # 93 # b @ t @ ?x))"
      using osc_param_on_osc [OF bt(1,2), of ?x] by auto
    with bt(3) d show ?thesis by simp
  qed
qed

lemma osc_any_pass_removes_escapes:
  "osc_complete t \<Longrightarrow> 27 \<notin> set (replace_all osc_any_match t)"
proof (induction t rule: osc_complete.induct)
  case 1
  show ?case by simp
next
  case (2 c cs)
  show ?case
  proof (cases "c \<noteq> 27")
    case True
    with "2.prems" have "osc_complete cs"
      by (simp add: osc_complete.simps)
    with True have "27 \<notin> set (replace_all osc_any_match cs)"
      using "2.IH" by blast
    with True show ?thesis
      by (simp add: no_match_plain_head)
  next
    case False
    with "2.prems" obtain n where n: "osc_any_match (c # cs) = Some n"
      and sc: "osc_complete (drop (n - 1) cs)"
      by (auto simp add: osc_complete.simps split: option.splits)
    from osc_any_match_structure [OF n] obtain b t where bt: "body_ok b" "term_ok t"
      "c # cs = 27 # 93 # b @ t @ drop n (c # cs)" "n = 2 + length b + length t"
      by blast
    have d: "drop n (c # cs) = drop (n - 1) cs"
      using bt(4) by (cases n) simp_all
    let ?x = "drop (n - 1) cs"
    from False n sc have "27 \<notin> set (replace_all osc_any_match ?x)"
      using "2.IH" by blast
    then have "27 \<notin> set (replace_all osc_any_match (27 # 93 # b @ t @ ?x))"
      unfolding osc_any_on_osc [OF bt(1,2)] .
    with bt(3) d show ?thesis by simp
  qed
qed

lemma stripAnsi_removes_complete_sequences:
  "sequences_complete t \<Longrightarrow> 27 \<notin> set (stripAnsi t)"
  unfolding stripAnsi_def
  by (intro osc_any_pass_removes_escapes osc_param_pass_leaves_osc csi_pass_leaves_osc)

text \<open>
  Claim C3 as stated: for every text \<open>t\<close>, \<open>strip(strip(t)) = strip(t)\<close> and \<open>strip(t)\<close>
  contains no escape character. Both parts fail at the text \<open>ESC [ ESC [ 0 m 0 m\<close>: one
  pass deletes the inner sequence \<open>ESC [ 0 m\<close> and leaves \<open>ESC [ 0 m\<close>, which still
  holds an escape character and which a second pass deletes.
\<close>

theorem stripAnsi_counterexample:
  "stripAnsi [27, 91, 27, 91, 48, 109, 48, 109] = [27, 91, 48, 109] \<and>
   27 \<in> set (stripAnsi [27, 91, 27, 91, 48, 109, 48, 109]) \<and>
   stripAnsi (stripAnsi [27, 91, 27, 91, 48, 109, 48, 109])
     \<noteq> stripAnsi [27, 91, 27, 91, 48, 109, 48, 109] \<and>
   27 \<in> set (stripAnsiFast [27, 91, 27, 91, 48, 109, 48, 109]) \<and>
   stripAnsiFast (stripAnsiFast [27, 91, 27, 91, 48, 109, 48, 109])
     \<noteq> stripAnsiFast [27, 91, 27, 91, 48, 109, 48, 109]"
proof -
  have a: "stripAnsi [27, 91, 27, 91, 48, 109, 48, 109] = [27, 91, 48, 109]"
    by (simp add: stripAnsi_def csi_match_def osc_param_match_def osc_any_match_def
        startsWith_def is_param_def is_alpha_def)
  have b: "stripAnsi [27, 91, 48, 109] = []"
    by (simp add: stripAnsi_def csi_match_def osc_param_match_def osc_any_match_def
        startsWith_def is_param_def is_alpha_def)
  show ?thesis
    by (simp add: stripAnsiFast_def includes_str_single a b)
qed

text \<open>
  Claim C3, amended. For every text in which, read from the left, every escape character
  begins a complete CSI sequence or a complete OSC sequence, \<open>strip(t)\<close> contains no
  escape character and \<open>strip(strip(t)) = strip(t)\<close>, for \<open>stripAnsi\<close> and for the fast
  path alike. A text without an escape character is returned unchanged, and whenever
  \<open>strip(t)\<close> contains no escape character, \<open>strip(strip(t)) = strip(t)\<close>. (An escape
  character that does not begin a complete sequence is kept, and deleting a sequence can
  join the text around it into a new one.)
\<close>

theorem stripAnsi_complete_sequences:
  "(sequences_complete t \<longrightarrow>
      27 \<notin> set (stripAnsi t) \<and> stripAnsi (stripAnsi t) = stripAnsi t \<and>
      27 \<notin> set (stripAnsiFast t) \<and> stripAnsiFast (stripAnsiFast t) = stripAnsiFast t) \<and>
   (27 \<notin> set t \<longrightarrow> stripAnsi t = t \<and> stripAnsiFast t = t) \<and>
   (27 \<notin> set (stripAnsi t) \<longrightarrow> stripAnsi (stripAnsi t) = stripAnsi t) \<and>
   (27 \<notin> set (stripAnsiFast t) \<longrightarrow> stripAnsiFast (stripAnsiFast t) = stripAnsiFast t)"
proof -
  have a: "27 \<notin> set (stripAnsi t) \<and> stripAnsi (stripAnsi t) = stripAnsi t \<and>
      27 \<notin> set (stripAnsiFast t) \<and> stripAnsiFast (stripAnsiFast t) = stripAnsiFast t"
    if "sequences_complete t"
  proof -
    have "27 \<notin> set (stripAnsi t)"
      using that by (rule stripAnsi_removes_complete_sequences)
    then show ?thesis
      by (simp add: stripAnsi_no_escape stripAnsiFast_def includes_str_single)
  qed
  have b: "(27 \<notin> set t \<longrightarrow> stripAnsi t = t \<and> stripAnsiFast t = t) \<and>
   (27 \<notin> set (stripAnsi t) \<longrightarrow> stripAnsi (stripAnsi t) = stripAnsi t) \<and>
   (27 \<notin> set (stripAnsiFast t) \<longrightarrow> stripAnsiFast (stripAnsiFast t) = stripAnsiFast t)"
    by (simp add: stripAnsi_no_escape stripAnsiFast_def includes_str_single)
  from a b show ?thesis by blast
qed

text \<open>
  The witness text: a window title as an OSC sequence ended by BEL, a hyperlink opener as
  an OSC sequence ended by ESC and a backslash, and \<open>red\<close> between two CSI colour
  sequences.
\<close>

theorem stripAnsi_complete_sequences_witness:
  "sequences_complete
     ([27, 93, 48, 59, 116, 7] @ [27, 93, 56, 59, 59, 117, 27, 92]
      @ [27, 91, 51, 49, 109] @ lit ''red'' @ [27, 91, 48, 109]) \<and>
   stripAnsi
     ([27, 93, 48, 59, 116, 7] @ [27, 93, 56, 59, 59, 117, 27, 92]
      @ [27, 91, 51, 49, 109] @ lit ''red'' @ [27, 91, 48, 109]) = lit ''red'' \<and>
   27 \<notin> set (stripAnsi
     ([27, 93, 48, 59, 116, 7] @ [27, 93, 56, 59, 59, 117, 27, 92]
      @ [27, 91, 51, 49, 109] @ lit ''red'' @ [27, 91, 48, 109])) \<and>
   stripAnsi (stripAnsi
     ([27, 93, 48, 59, 116, 7] @ [27, 93, 56, 59, 59, 117, 27, 92]
      @ [27, 91, 51, 49, 109] @ lit ''red'' @ [27, 91, 48, 109]))
     = stripAnsi
     ([27, 93, 48, 59, 116, 7] @ [27, 93, 56, 59, 59, 117, 27, 92]
      @ [27, 91, 51, 49, 109] @ lit ''red'' @ [27, 91, 48, 109]) \<and>
   27 \<notin> set (stripAnsiFast
     ([27, 93, 48, 59, 116, 7] @ [27, 93, 56, 59, 59, 117, 27, 92]
      @ [27, 91, 51, 49, 109] @ lit ''red'' @ [27, 91, 48, 109])) \<and>
   stripAnsiFast (stripAnsiFast
     ([27, 93, 48, 59, 116, 7] @ [27, 93, 56, 59, 59, 117, 27, 92]
      @ [27, 91, 51, 49, 109] @ lit ''red'' @ [27, 91, 48, 109]))
     = stripAnsiFast
     ([27, 93, 48, 59, 116, 7] @ [27, 93, 56, 59, 59, 117, 27, 92]
      @ [27, 91, 51, 49, 109] @ lit ''red'' @ [27, 91, 48, 109]) \<and>
   27 \<notin> set (lit ''plain text'') \<and>
   stripAnsi (lit ''plain text'') = lit ''plain text'' \<and>
   stripAnsiFast (lit ''plain text'') = lit ''plain text''"
proof -
  let ?t = "[27, 93, 48, 59, 116, 7] @ [27, 93, 56, 59, 59, 117, 27, 92]
      @ [27, 91, 51, 49, 109] @ lit ''red'' @ [27, 91, 48, 109]"
  have c: "sequences_complete ?t"
    by (simp add: sequences_complete.simps csi_match_def osc_any_match_def osc_end_def
        startsWith_def is_param_def is_alpha_def lit_def)
  have r: "stripAnsi ?t = lit ''red''"
    by (simp add: stripAnsi_def csi_match_def osc_param_match_def osc_any_match_def
        osc_end_def startsWith_def is_param_def is_alpha_def lit_def)
  have p: "27 \<notin> set (lit ''plain text'')"
    by (simp add: lit_def)
  from stripAnsi_complete_sequences [of ?t] c
  have "27 \<notin> set (stripAnsi ?t) \<and> stripAnsi (stripAnsi ?t) = stripAnsi ?t \<and>
      27 \<notin> set (stripAnsiFast ?t) \<and> stripAnsiFast (stripAnsiFast ?t) = stripAnsiFast ?t"
    by blast
  moreover from stripAnsi_complete_sequences [of "lit ''plain text''"] p
  have "stripAnsi (lit ''plain text'') = lit ''plain text''
      \<and> stripAnsiFast (lit ''plain text'') = lit ''plain text''"
    by blast
  ultimately show ?thesis
    using c r p by blast
qed

section \<open>Properties of the test output aggregation\<close>

lemma join_Cons: "join sep (x # xs) = x @ (if xs = [] then [] else sep @ join sep xs)"
  by (cases xs) simp_all

lemma startsWith_append [simp]: "startsWith (p @ b) p"
  by (simp add: startsWith_def)

lemma includes_str_startsWith: "startsWith s p \<Longrightarrow> includes_str s p"
  by (cases s) (auto simp add: startsWith_def)

lemma includes_str_append_right: "includes_str v p \<Longrightarrow> includes_str (u @ v) p"
  by (induction u) simp_all

lemma includes_str_middle: "includes_str (a @ p @ b) p"
  by (simp add: includes_str_append_right includes_str_startsWith)

lemma regex_search_hit: "m x = Some r \<Longrightarrow> regex_search m x = Some r"
  by (cases x) simp_all


lemma regex_search_skip:
  "(\<And>u v. pre = u @ v \<Longrightarrow> v \<noteq> [] \<Longrightarrow> m (v @ x) = None) \<Longrightarrow>
   regex_search m (pre @ x) = regex_search m x"
proof (induction pre)
  case Nil
  show ?case by simp
next
  case (Cons c cs)
  have "m ((c # cs) @ x) = None"
    using Cons.prems [of "[]" "c # cs"] by simp
  moreover have "regex_search m (cs @ x) = regex_search m x"
  proof (rule Cons.IH)
    fix u v
    assume "cs = u @ v" "v \<noteq> []"
    then show "m (v @ x) = None"
      using Cons.prems [of "c # u" v] by simp
  qed
  ultimately show ?case by simp
qed













text \<open>
  The text \<open>test result:\<close> ends with its only colon, so it cannot begin inside a text
  that is directly followed by another \<open>test result:\<close>, unless it lies wholly inside.
\<close>

lemma test_result_no_overlap:
  assumes "startsWith (v @ lit ''test result:'' @ r) (lit ''test result:'')"
  shows "v = [] \<or> startsWith v (lit ''test result:'')"
proof (cases "12 \<le> length v")
  case True
  with assms show ?thesis by (simp add: startsWith_def)
next
  case False
  show ?thesis
  proof (rule ccontr)
    assume "\<not> (v = [] \<or> startsWith v (lit ''test result:''))"
    then have k: "0 < length v" by simp
    let ?P = "lit ''test result:''"
    have len: "length ?P = 12" by simp
    from assms have "take 12 (v @ ?P @ r) = ?P"
      unfolding startsWith_def len .
    then have "take 12 (v @ ?P @ r) ! 11 = ?P ! 11"
      by (rule arg_cong)
    moreover have "take 12 (v @ ?P @ r) ! 11 = (v @ ?P @ r) ! 11"
      by (rule nth_take) simp
    moreover have "(v @ ?P @ r) ! 11 = (?P @ r) ! (11 - length v)"
      using False by (simp add: nth_append)
    moreover have "(?P @ r) ! (11 - length v) = ?P ! (11 - length v)"
    proof -
      have "11 - length v < length ?P"
        unfolding len by arith
      then show ?thesis
        by (simp only: nth_append if_True)
    qed
    ultimately have eq: "?P ! (11 - length v) = ?P ! 11" by simp
    have lt: "11 - length v < 11"
      using k by arith
    have len11: "length (take 11 ?P) = 11"
      by (simp only: length_take len)
    have "?P ! (11 - length v) = take 11 ?P ! (11 - length v)"
      using lt by (simp only: nth_take)
    moreover have "take 11 ?P ! (11 - length v) \<in> set (take 11 ?P)"
      by (rule nth_mem) (simp only: len11 lt)
    ultimately have "?P ! 11 \<in> set (take 11 ?P)"
      using eq by simp
    then show False by (simp add: lit_def)
  qed
qed

lemma rust_result_match_prefix:
  "rust_result_match s \<noteq> None \<Longrightarrow> startsWith s (lit ''test result:'')"
  by (simp add: rust_result_match_def expect_def split: if_splits)

lemma rust_result_search_first:
  assumes "\<not> includes_str pre (lit ''test result:'')"
  shows "regex_search rust_result_match (pre @ lit ''test result:'' @ r)
           = regex_search rust_result_match (lit ''test result:'' @ r)"
proof (rule regex_search_skip)
  fix u v
  assume uv: "pre = u @ v" "v \<noteq> []"
  show "rust_result_match (v @ lit ''test result:'' @ r) = None"
  proof (rule ccontr)
    assume "rust_result_match (v @ lit ''test result:'' @ r) \<noteq> None"
    then have "startsWith (v @ lit ''test result:'' @ r) (lit ''test result:'')"
      by (rule rust_result_match_prefix)
    with uv(2) have "startsWith v (lit ''test result:'')"
      using test_result_no_overlap by blast
    then have "includes_str (u @ v) (lit ''test result:'')"
      by (simp add: includes_str_append_right includes_str_startsWith)
    with assms uv(1) show False by simp
  qed
qed

lemma failed_result_line_split:
  "failed_result_line @ post
     = lit ''test result:'' @ (lit '' FAILED. 5 passed; 2 failed; 0 ignored'' @ post)"
  by (simp add: failed_result_line_def lit_def)

lemma rust_result_match_failed_line:
  "rust_result_match (failed_result_line @ post)
     = Some (Some (lit ''FAILED''), Some (lit ''5''), Some (lit ''2''))"
  by (simp add: failed_result_line_def rust_result_match_def expect_def startsWith_def
      is_space_def is_word_def is_digit_def is_alpha_def lit_def)

lemma failed_line_stats:
  assumes "\<not> includes_str pre (lit ''test result:'')"
  shows "extractTestStats (pre @ failed_result_line @ post) = Some (0, 5, 2)"
proof -
  have "regex_search rust_result_match (pre @ failed_result_line @ post)
      = regex_search rust_result_match (failed_result_line @ post)"
    unfolding failed_result_line_split by (rule rust_result_search_first [OF assms])
  also have "\<dots> = Some (Some (lit ''FAILED''), Some (lit ''5''), Some (lit ''2''))"
    by (rule regex_search_hit) (rule rust_result_match_failed_line)
  finally have "first_pattern TEST_RESULT_PATTERNS (pre @ failed_result_line @ post)
      = Some (Some (lit ''FAILED''), Some (lit ''5''), Some (lit ''2''))"
    by (simp add: TEST_RESULT_PATTERNS_def)
  then show ?thesis
    by (simp add: extractTestStats_def parse_count_def digits_value_def is_digit_def lit_def)
qed

lemma summary_5_failed:
  "includes_str (join [10] (build_result 0 5 skipped failures)) (lit ''5 failed'')"
proof -
  obtain rest where "build_result 0 5 skipped failures
     = ([55357, 56523] @ lit '' Test Results:'')
       # (lit ''   '' @ [9989] @ lit '' 0 passed'')
       # ((lit ''   '' @ [10060] @ lit '' '') @ lit ''5 failed'' @ []) # rest"
    by (simp add: build_result_def num_str_def dec_digits.simps lit_def)
  then have "join [10] (build_result 0 5 skipped failures)
     = (([55357, 56523] @ lit '' Test Results:'') @ [10] @ (lit ''   '' @ [9989] @ lit '' 0 passed'')
          @ [10] @ (lit ''   '' @ [10060] @ lit '' ''))
       @ lit ''5 failed'' @ (if rest = [] then [] else [10] @ join [10] rest)"
    by (simp add: join_Cons)
  then show ?thesis
    by (simp only: includes_str_middle)
qed

lemma two_result_lines_first_match:
  "rust_result_match two_result_lines
     = Some (Some (lit ''ok''), Some (lit ''3''), Some (lit ''0''))"
  by (simp add: two_result_lines_def failed_result_line_def rust_result_match_def expect_def
      startsWith_def is_space_def is_word_def is_digit_def is_alpha_def lit_def)

lemma two_result_lines_stats: "extractTestStats two_result_lines = Some (0, 3, 0)"
proof -
  have "regex_search rust_result_match two_result_lines
      = Some (Some (lit ''ok''), Some (lit ''3''), Some (lit ''0''))"
    by (rule regex_search_hit) (rule two_result_lines_first_match)
  then have "first_pattern TEST_RESULT_PATTERNS two_result_lines
      = Some (Some (lit ''ok''), Some (lit ''3''), Some (lit ''0''))"
    by (simp add: TEST_RESULT_PATTERNS_def)
  then show ?thesis
    by (simp add: extractTestStats_def parse_count_def digits_value_def is_digit_def lit_def)
qed

lemma result_lines_no_failure_start:
  "\<not> isFailureStart (lit ''test result: ok. 3 passed; 0 failed; 0 ignored'')"
  "\<not> isFailureStart failed_result_line"
  by (simp_all add: failed_result_line_def isFailureStart_def go_failed_match_def
      rust_panic_match_def spaces1_def expect_def startsWith_def is_space_def is_word_def
      is_digit_def is_alpha_def lit_def)

lemma two_result_lines_split:
  "split_on 10 two_result_lines
     = [lit ''test result: ok. 3 passed; 0 failed; 0 ignored'', failed_result_line]"
  by (simp add: two_result_lines_def failed_result_line_def lit_def)

lemma two_result_lines_failures:
  "extract_failures [lit ''test result: ok. 3 passed; 0 failed; 0 ignored'', failed_result_line]
     = []"
  by (simp add: extract_failures_def failure_step_def result_lines_no_failure_start)

text \<open>
  Claim C4 as stated: for every test command, any output that contains the line
  \<open>test result: FAILED. 5 passed; 2 failed; 0 ignored\<close> yields a summary containing
  \<open>5 failed\<close>. It fails when an earlier text matches the first template: the leftmost
  match decides, and with the result line of a passing test binary in front the summary
  reports \<open>3 failed\<close> and nowhere \<open>5 failed\<close>.
\<close>

theorem earlier_result_line_counterexample:
  "isTestCommand (lit ''cargo test'') \<and>
   includes_str two_result_lines failed_result_line \<and>
   aggregateTestOutput two_result_lines (lit ''cargo test'')
     = Some ([55357, 56523] @ lit '' Test Results:'' @ [10]
             @ lit ''   '' @ [9989] @ lit '' 0 passed'' @ [10]
             @ lit ''   '' @ [10060] @ lit '' 3 failed'') \<and>
   \<not> includes_str ([55357, 56523] @ lit '' Test Results:'' @ [10]
             @ lit ''   '' @ [9989] @ lit '' 0 passed'' @ [10]
             @ lit ''   '' @ [10060] @ lit '' 3 failed'') (lit ''5 failed'')"
proof -
  have t: "isTestCommand (lit ''cargo test'')"
    by (simp add: isTestCommand_def TEST_COMMANDS_def toLowerCase_def lit_def startsWith_def)
  have i: "includes_str two_result_lines failed_result_line"
    unfolding two_result_lines_def
    using includes_str_middle [of "lit ''test result: ok. 3 passed; 0 failed; 0 ignored'' @ [10]"
        failed_result_line "[]"]
    by simp
  have a: "aggregateTestOutput two_result_lines (lit ''cargo test'')
     = Some ([55357, 56523] @ lit '' Test Results:'' @ [10]
             @ lit ''   '' @ [9989] @ lit '' 0 passed'' @ [10]
             @ lit ''   '' @ [10060] @ lit '' 3 failed'')"
    by (simp add: aggregateTestOutput_def Let_def t two_result_lines_stats
        two_result_lines_split two_result_lines_failures build_result_def num_str_def
        dec_digits.simps)
      (simp add: lit_def)
  have n: "\<not> includes_str ([55357, 56523] @ lit '' Test Results:'' @ [10]
             @ lit ''   '' @ [9989] @ lit '' 0 passed'' @ [10]
             @ lit ''   '' @ [10060] @ lit '' 3 failed'') (lit ''5 failed'')"
    by (simp add: startsWith_def lit_def)
  from t i a n show ?thesis by blast
qed

text \<open>
  Claim C4, amended. For every test command and every output that contains the line
  \<open>test result: FAILED. 5 passed; 2 failed; 0 ignored\<close> with no text \<open>test result:\<close>
  before it, the first template matches at that line, its groups give 0 passed, 5 failed,
  2 skipped, and the summary contains \<open>5 failed\<close>.
\<close>

theorem failed_result_line_reports_5_failed:
  assumes "isTestCommand command"
    and "\<not> includes_str pre (lit ''test result:'')"
  shows "extractTestStats (pre @ failed_result_line @ post) = Some (0, 5, 2) \<and>
         (\<exists>summary. aggregateTestOutput (pre @ failed_result_line @ post) command = Some summary
            \<and> includes_str summary (lit ''5 failed''))"
proof -
  let ?output = "pre @ failed_result_line @ post"
  have s: "extractTestStats ?output = Some (0, 5, 2)"
    by (rule failed_line_stats [OF assms(2)])
  have "aggregateTestOutput ?output command
      = Some (join [10] (build_result 0 5 2 (extract_failures (split_on 10 ?output))))"
    using assms(1) by (simp add: aggregateTestOutput_def Let_def s)
  with s show ?thesis
    by (simp add: summary_5_failed)
qed


theorem failed_result_line_reports_5_failed_witness:
  "isTestCommand (lit ''cargo test'') \<and>
   \<not> includes_str (lit ''running 7 tests'' @ [10]) (lit ''test result:'') \<and>
   extractTestStats ((lit ''running 7 tests'' @ [10]) @ failed_result_line
      @ ([10, 10] @ lit ''FAIL test-one'')) = Some (0, 5, 2) \<and>
   (\<exists>summary. aggregateTestOutput ((lit ''running 7 tests'' @ [10]) @ failed_result_line
         @ ([10, 10] @ lit ''FAIL test-one'')) (lit ''cargo test'') = Some summary
      \<and> includes_str summary (lit ''5 failed''))"
proof -
  have t: "isTestCommand (lit ''cargo test'')"
    by (simp add: isTestCommand_def TEST_COMMANDS_def toLowerCase_def lit_def startsWith_def)
  have p: "\<not> includes_str (lit ''running 7 tests'' @ [10]) (lit ''test result:'')"
    by (simp add: startsWith_def lit_def)
  show ?thesis
    using failed_result_line_reports_5_failed [OF t p, of "[10, 10] @ lit ''FAIL test-one''"]
      t p
    by blast
qed

section \<open>Properties of the orchestrator\<close>

lemma and_then_simps [simp]:
  "and_then (Inl e) f = Inl e"
  "and_then (Inr x) f = f x"
  by (simp_all add: and_then_def)

lemma run_steps_append:
  "run_steps (xs @ ys) a = and_then (run_steps xs a) (run_steps ys)"
proof (induction xs arbitrary: a)
  case Nil
  show ?case by simp
next
  case (Cons s xs)
  show ?case
    by (cases "s a") (simp_all add: Cons.IH)
qed

text \<open>A stage that throws on what its predecessors produced makes the whole run throw.\<close>

lemma run_steps_fault_at:
  "run_steps pre a = Inr b \<Longrightarrow> s b = Inl e \<Longrightarrow> run_steps (pre @ s # post) a = Inl e"
  by (simp add: run_steps_append)

text \<open>Conversely, a run throws only if one of its stages did.\<close>

lemma run_steps_fault_source:
  "run_steps steps a = Inl e \<Longrightarrow>
   \<exists>pre s post b. steps = pre @ s # post \<and> run_steps pre a = Inr b \<and> s b = Inl e"
proof (induction steps arbitrary: a)
  case Nil
  then show ?case by simp
next
  case (Cons s ss)
  show ?case
  proof (cases "s a")
    case (Inl e')
    with Cons.prems have "e' = e" by simp
    with Inl have "s # ss = [] @ s # ss \<and> run_steps [] a = Inr a \<and> s a = Inl e"
      by simp
    then show ?thesis by blast
  next
    case (Inr b)
    with Cons.prems have "run_steps ss b = Inl e" by simp
    from Cons.IH [OF this] obtain pre t post c
      where "ss = pre @ t # post" "run_steps pre b = Inr c" "t c = Inl e"
      by blast
    with Inr have "s # ss = (s # pre) @ t # post \<and> run_steps (s # pre) a = Inr c \<and> t c = Inl e"
      by simp
    then show ?thesis by blast
  qed
qed

lemma finish_fault:
  "finish config now input original (Inl e) st
     = st \<lparr> app_log := app_log st @ [LogFilterError (tool input) e] \<rparr>"
  by (simp add: finish_def)

text \<open>
  Claim C1. If a filter stage throws while the hook processes an output --- the stage is
  reached with what its predecessors produced and raises \<open>e\<close> there --- the output field
  still holds the original text, whatever the earlier stages had already made of it, and
  no metric record is emitted, neither in memory nor in the metrics file.
\<close>

theorem stage_exception_keeps_original:
  assumes "output_field st = OutString original"
    and "stage_list S config input = pre @ s # post"
    and "run_steps pre (original, None) = Inr a"
    and "s a = Inl e"
  shows "output_field (tool_execute_after S config now input st) = OutString original \<and>
         sessionMetrics (tool_execute_after S config now input st) = sessionMetrics st \<and>
         metricsFile (tool_execute_after S config now input st) = metricsFile st"
proof -
  have "run_steps (stage_list S config input) (original, None) = Inl e"
    using assms(2-4) by (simp add: run_steps_fault_at)
  then show ?thesis
    using assms(1) by (simp add: tool_execute_after_def process_output_def finish_fault)
qed

text \<open>
  The example run: ANSI stripping has already turned the red \<open>hello\<close> into \<open>hello\<close> when
  the build filter throws.
\<close>

lemma lit_eq_Nil [simp]: "lit s = [] \<longleftrightarrow> s = []"
  by (simp add: lit_def)

lemma stripAnsiFast_red_hello: "stripAnsiFast red_hello = lit ''hello''"
  by (simp add: red_hello_def stripAnsiFast_def includes_str_single stripAnsi_def csi_match_def
      osc_param_match_def osc_any_match_def startsWith_def is_param_def is_alpha_def lit_def)

lemma red_hello_not_hello: "lit ''hello'' \<noteq> red_hello"
  by (simp add: red_hello_def lit_def)

lemma build_throws_stage_list:
  "stage_list build_throws DEFAULT_CONFIG cargo_test_input
     = [ansi_step build_throws DEFAULT_CONFIG]
       @ command_step True (\<lambda>r. f_filterBuildOutput build_throws r (lit ''cargo test''))
           (lit ''build-filter'')
       # (tl (bash_steps build_throws DEFAULT_CONFIG (lit ''cargo test''))
          @ [truncate_step build_throws DEFAULT_CONFIG])"
  by (simp add: stage_list_def cargo_test_input_def bash_steps_def DEFAULT_CONFIG_def)

lemma build_throws_ansi:
  "run_steps [ansi_step build_throws DEFAULT_CONFIG] (red_hello, None)
     = Inr (lit ''hello'', Some (lit ''ansi-stripping''))"
  by (simp add: ansi_step_def DEFAULT_CONFIG_def build_throws_def quiet_stages_def
      stripAnsiFast_red_hello red_hello_not_hello)

lemma build_throws_build:
  "command_step True (\<lambda>r. f_filterBuildOutput build_throws r (lit ''cargo test''))
     (lit ''build-filter'') (lit ''hello'', Some (lit ''ansi-stripping''))
   = Inl (Fault (lit ''boom''))"
  by (simp add: command_step_def build_throws_def quiet_stages_def)

theorem stage_exception_keeps_original_witness:
  "output_field red_hello_state = OutString red_hello \<and>
   run_steps [ansi_step build_throws DEFAULT_CONFIG] (red_hello, None)
     = Inr (lit ''hello'', Some (lit ''ansi-stripping'')) \<and>
   output_field (tool_execute_after build_throws DEFAULT_CONFIG (lit ''t0'') cargo_test_input
      red_hello_state) = OutString red_hello \<and>
   sessionMetrics (tool_execute_after build_throws DEFAULT_CONFIG (lit ''t0'') cargo_test_input
      red_hello_state) = [] \<and>
   metricsFile (tool_execute_after build_throws DEFAULT_CONFIG (lit ''t0'') cargo_test_input
      red_hello_state) = []"
proof -
  have o: "output_field red_hello_state = OutString red_hello"
    by (simp add: red_hello_state_def)
  have m: "sessionMetrics red_hello_state = []" "metricsFile red_hello_state = []"
    by (simp_all add: red_hello_state_def)
  show ?thesis
    using stage_exception_keeps_original
      [OF o build_throws_stage_list build_throws_ansi build_throws_build, of "lit ''t0''"]
      o m build_throws_ansi
    by simp
qed

text \<open>
  Claim C6 as stated: after a stage has thrown, the remaining enabled stages still run, on
  the text as it stood before the fault. In the example run the test aggregator would then
  turn the stripped text into \<open>summary\<close>, and that would become the output. The hook
  leaves the original text in place instead: its stages sit in one \<open>try\<close> block, and the
  throw leaves the block.
\<close>

theorem continue_after_fault_counterexample:
  "output_field (tool_execute_after (spec_continue_after_fault build_throws) DEFAULT_CONFIG
      (lit ''t0'') cargo_test_input red_hello_state) = OutString (lit ''summary'') \<and>
   output_field (tool_execute_after build_throws DEFAULT_CONFIG (lit ''t0'') cargo_test_input
      red_hello_state) = OutString red_hello \<and>
   OutString red_hello \<noteq> OutString (lit ''summary'')"
proof -
  have spec: "run_steps
      (stage_list (spec_continue_after_fault build_throws) DEFAULT_CONFIG cargo_test_input)
      (red_hello, None)
    = Inr (lit ''summary'', Some (lit ''ansi-stripping,test-aggregate''))"
    by (simp add: stage_list_def cargo_test_input_def bash_steps_def DEFAULT_CONFIG_def
        spec_continue_after_fault_def build_throws_def quiet_stages_def recover_text_def
        recover_null_def ansi_step_def command_step_def truncate_step_def add_label_def
        stripAnsiFast_red_hello red_hello_not_hello)
      (simp add: lit_def)
  have code: "run_steps (stage_list build_throws DEFAULT_CONFIG cargo_test_input)
      (red_hello, None) = Inl (Fault (lit ''boom''))"
    unfolding build_throws_stage_list
    by (rule run_steps_fault_at
        [where s = "command_step True
            (\<lambda>r. f_filterBuildOutput build_throws r (lit ''cargo test'')) (lit ''build-filter'')",
          OF build_throws_ansi build_throws_build])
  have ne: "red_hello \<noteq> lit ''summary''" "red_hello \<noteq> []"
    by (simp_all add: red_hello_def lit_def)
  have o: "output_field red_hello_state = OutString red_hello"
    by (simp add: red_hello_state_def)
  have a: "tool_execute_after (spec_continue_after_fault build_throws) DEFAULT_CONFIG
      (lit ''t0'') cargo_test_input red_hello_state
    = finish DEFAULT_CONFIG (lit ''t0'') cargo_test_input red_hello
        (Inr (lit ''summary'', Some (lit ''ansi-stripping,test-aggregate''))) red_hello_state"
    by (simp add: tool_execute_after_def process_output_def o ne spec)
  have b: "tool_execute_after build_throws DEFAULT_CONFIG (lit ''t0'') cargo_test_input
      red_hello_state
    = finish DEFAULT_CONFIG (lit ''t0'') cargo_test_input red_hello
        (Inl (Fault (lit ''boom''))) red_hello_state"
    by (simp add: tool_execute_after_def process_output_def o ne code)
  show ?thesis
    unfolding a b using ne o
    by (simp add: finish_def resolveSessionID_def cargo_test_input_def recordAndLog_def Let_def)
qed

text \<open>
  Claim C6, amended. When a stage throws, the run ends there: whatever stages follow it,
  they have no effect. The hook's state is what it was before, the output field included,
  except for one warning in the log that carries the tool name and the exception.
\<close>

theorem stage_exception_stops_pipeline:
  assumes "output_field st = OutString original" and "original \<noteq> []"
    and "run_steps pre (original, None) = Inr a"
    and "s a = Inl e"
  shows "process_output (pre @ s # post) config now input st
           = st \<lparr> app_log := app_log st @ [LogFilterError (tool input) e] \<rparr> \<and>
         (stage_list S config input = pre @ s # post \<longrightarrow>
            tool_execute_after S config now input st
              = st \<lparr> app_log := app_log st @ [LogFilterError (tool input) e] \<rparr>)"
  using assms
  by (simp add: tool_execute_after_def process_output_def run_steps_fault_at finish_fault)

theorem stage_exception_stops_pipeline_witness:
  "output_field red_hello_state = OutString red_hello \<and> red_hello \<noteq> [] \<and>
   tool_execute_after build_throws DEFAULT_CONFIG (lit ''t0'') cargo_test_input red_hello_state
     = red_hello_state \<lparr> app_log := [LogFilterError (lit ''bash'') (Fault (lit ''boom''))] \<rparr> \<and>
   process_output
     ([ansi_step build_throws DEFAULT_CONFIG]
      @ command_step True (\<lambda>r. f_filterBuildOutput build_throws r (lit ''cargo test''))
          (lit ''build-filter'') # [])
     DEFAULT_CONFIG (lit ''t0'') cargo_test_input red_hello_state
     = red_hello_state \<lparr> app_log := [LogFilterError (lit ''bash'') (Fault (lit ''boom''))] \<rparr>"
proof -
  have o: "output_field red_hello_state = OutString red_hello"
    by (simp add: red_hello_state_def)
  have n: "red_hello \<noteq> []"
    by (simp add: red_hello_def)
  have l: "app_log red_hello_state = []" "tool cargo_test_input = lit ''bash''"
    by (simp_all add: red_hello_state_def cargo_test_input_def)
  let ?build = "command_step True (\<lambda>r. f_filterBuildOutput build_throws r (lit ''cargo test''))
      (lit ''build-filter'')"
  let ?rest = "tl (bash_steps build_throws DEFAULT_CONFIG (lit ''cargo test''))
      @ [truncate_step build_throws DEFAULT_CONFIG]"
  note inst = stage_exception_stops_pipeline
    [where s = ?build and pre = "[ansi_step build_throws DEFAULT_CONFIG]"
      and a = "(lit ''hello'', Some (lit ''ansi-stripping''))" and original = red_hello
      and st = red_hello_state and e = "Fault (lit ''boom'')" and config = DEFAULT_CONFIG
      and now = "lit ''t0''" and input = cargo_test_input and S = build_throws,
      OF o n build_throws_ansi build_throws_build]
  show ?thesis
    using inst [of ?rest] inst [of "[]"] build_throws_stage_list o n l
    by simp
qed

end
